theory Spec2Isabelle
  imports Main "HOL-Library.Word" "HOL-Library.Signed_Division"
begin

section \<open>Syntax tree\<close>

text \<open>
  The evaluator walks the nodes of package \<open>ast\<close>.  Modelled from the spec: the package's
  type declarations are not part of the sources at hand, so the node variants follow the
  data model of the specification and the fields the evaluator reads
  (\<open>node.Statements\<close>, \<open>node.Name.Value\<close>, \<open>node.Operator\<close>, \<open>ie.Alternative\<close>, ...).
  Tokens are left out: the evaluator never reads them.  Go separates the interfaces
  \<open>Statement\<close> and \<open>Expression\<close>; \<open>node\<close> is the interface \<open>ast.Node\<close> that \<open>Eval\<close>
  switches on.  A block that may be absent (\<open>ie.Alternative != nil\<close>) is an option; every
  other field of a node is present (the parser leaves a field \<open>nil\<close> only together with a
  syntax error, and the read-eval-print loop does not evaluate such a program).
  The pairs of a hash literal are listed in the order in which the \<open>range\<close> loop of
  \<open>evalHashLiteral\<close> happens to visit them (Go leaves that order open).
\<close>

datatype expression =
    Identifier string
  | IntegerLiteral "64 word"
  | StringLiteral string
  | BooleanLiteral bool
  | PrefixExpression string expression
  | InfixExpression expression string expression
  | IfExpression expression "statement list" "statement list option"
  | FunctionLiteral "string list" "statement list"
  | CallExpression expression "expression list"
  | ArrayLiteral "expression list"
  | HashLiteral "(expression \<times> expression) list"
  | IndexExpression expression expression
and statement =
    LetStatement string expression
  | ReturnStatement expression
  | ExpressionStatement expression
  | BlockStatement "statement list"

datatype node = Program "statement list" | Stmt statement | Expr expression

section \<open>Runtime objects, references and environments\<close>

text \<open>
  Every runtime object is reached through a pointer, and the evaluator compares pointers
  (\<open>left == right\<close>, \<open>switch obj { case NULL: ... }\<close>).  A reference is therefore either
  one of the three package-level singletons, the entry of a name in the built-in table, or
  the address of an object allocated during evaluation.  A Go interface value that is
  \<open>nil\<close> is \<open>None\<close> of type \<open>ref option\<close>.
\<close>

datatype ref = NULL | TRUE | FALSE | BuiltinRef string | Addr nat

text \<open>
  An \<open>*object.Environment\<close> is a mutable table of bindings with an optional enclosing
  environment.  The table lives in the state at address \<open>store\<close>; the pointer to the
  enclosing environment is fixed at creation.
\<close>

datatype environment = Environment (store: nat) (outer: "environment option")

text \<open>
  Modelled from the spec: package \<open>object\<close> is not among the sources.  Each runtime object
  has a kind tag and a payload: \<open>Integer\<close> a signed 64-bit value, \<open>Boolean\<close>, \<open>Null\<close>,
  \<open>String\<close>, \<open>Array\<close> a sequence of objects, \<open>Hash\<close> a mapping from hash keys to pairs of
  the original key and the value, \<open>Function\<close> the parameter names, the body and the captured
  environment, \<open>Builtin\<close> a native function (here: its name in the built-in table),
  \<open>ReturnValue\<close> a wrapped value, \<open>Error\<close> a message.  The constants \<open>INTEGER_OBJ\<close>, ... are
  what \<open>Type()\<close> returns for each kind.
\<close>

datatype ObjectType =
    INTEGER_OBJ | BOOLEAN_OBJ | NULL_OBJ | RETURN_VALUE_OBJ | ERROR_OBJ
  | FUNCTION_OBJ | STRING_OBJ | BUILTIN_OBJ | ARRAY_OBJ | HASH_OBJ

text \<open>
  The declaration of \<open>object.HashKey\<close> is not among the sources; a hash key is a
  comparable value, taken here as a number.
\<close>

type_synonym HashKey = nat

datatype obj =
    Integer "64 word"
  | Boolean bool
  | Null
  | String string
  | Array "ref option list"
  | Hash "HashKey \<rightharpoonup> (ref option \<times> ref option)"
  | Function "string list" "statement list" environment
  | Builtin string
  | ReturnValue "ref option"
  | Error string

fun Type :: "obj \<Rightarrow> ObjectType" where
  "Type (Integer v) = INTEGER_OBJ"
| "Type (Boolean b) = BOOLEAN_OBJ"
| "Type Null = NULL_OBJ"
| "Type (String v) = STRING_OBJ"
| "Type (Array es) = ARRAY_OBJ"
| "Type (Hash ps) = HASH_OBJ"
| "Type (Function ps b e) = FUNCTION_OBJ"
| "Type (Builtin n) = BUILTIN_OBJ"
| "Type (ReturnValue v) = RETURN_VALUE_OBJ"
| "Type (Error m) = ERROR_OBJ"

text \<open>Modelled from the spec: the hashable kinds are integer, boolean and string.\<close>

fun Hashable :: "obj \<Rightarrow> bool" where
  "Hashable (Integer v) = True"
| "Hashable (Boolean b) = True"
| "Hashable (String v) = True"
| "Hashable ob = False"

record state =
  objs :: "obj list"
  frames :: "(string \<rightharpoonup> ref option) list"
  clock :: nat

text \<open>
  \<open>objs\<close> holds the objects allocated so far (address = position), \<open>frames\<close> the binding
  tables of the environments created so far, and \<open>clock\<close> counts the reads of the
  cancellation signal.  Go has no dangling pointers: an address comes from an allocation
  and is below the length of its list.
\<close>

fun deref :: "state \<Rightarrow> ref \<Rightarrow> obj" where
  "deref s NULL = Null"
| "deref s TRUE = Boolean True"
| "deref s FALSE = Boolean False"
| "deref s (BuiltinRef name) = Builtin name"
| "deref s (Addr a) = objs s ! a"

section \<open>Outcomes of a call\<close>

text \<open>
  \<open>error\<close> is the Go \<open>error\<close> that \<open>ctx.Err()\<close> can report.  A call of the evaluator ends
  in a Go runtime panic, returns a non-nil \<open>error\<close>, or returns a result; a call that is
  cut off by the recursion bound of the model is \<open>None\<close>.
\<close>

datatype error = Canceled | DeadlineExceeded

datatype 'a outcome = Panic | Err error | Ok 'a

type_synonym 'a M = "state \<Rightarrow> ('a outcome \<times> state) option"

definition return :: "'a \<Rightarrow> 'a M" where
  "return x s = Some (Ok x, s)"

definition fail :: "error \<Rightarrow> 'a M" where
  "fail e s = Some (Err e, s)"

definition panic :: "'a M" where
  "panic s = Some (Panic, s)"

definition andThen :: "'a M \<Rightarrow> ('a \<Rightarrow> 'b M) \<Rightarrow> 'b M" where
  "andThen m f s =
     (case m s of
        None \<Rightarrow> None
      | Some (Panic, s') \<Rightarrow> Some (Panic, s')
      | Some (Err e, s') \<Rightarrow> Some (Err e, s')
      | Some (Ok x, s') \<Rightarrow> f x s')"

text \<open>
  The cancellation signal is external: the \<open>k\<close>-th read of \<open>ctx.Err()\<close> during a run
  observes \<open>ctx k\<close>.
\<close>

type_synonym Context = "nat \<Rightarrow> error option"

definition ctxErr :: "Context \<Rightarrow> error option M" where
  "ctxErr ctx s = Some (Ok (ctx (clock s)), s\<lparr>clock := Suc (clock s)\<rparr>)"

text \<open>
  The parts of the repository that the evaluator uses and that are not among the sources:
  the table \<open>builtins\<close> (a built-in receives the arguments and the objects allocated so
  far, and returns its result together with the objects as it leaves them, or panics:
  \<open>None\<close>), the
  strings of the \<open>ObjectType\<close> constants as \<open>%s\<close> prints them, and the method \<open>HashKey()\<close>
  of the hashable objects.  With them goes the one part of Go's library \<open>fmt\<close> that is left
  open: \<open>missing_operands format\<close> is what \<open>fmt.Sprintf(format)\<close> returns for a format that
  has a percent sign and no operand for it.
\<close>

record decls =
  builtins :: "string \<rightharpoonup> (ref option list \<Rightarrow> obj list \<Rightarrow> (ref option \<times> obj list) option)"
  type_name :: "ObjectType \<Rightarrow> string"
  hash_key :: "obj \<Rightarrow> HashKey"
  missing_operands :: "string \<Rightarrow> string"

section \<open>Allocation and the environment\<close>

definition new :: "obj \<Rightarrow> ref option M" where
  "new ob s = Some (Ok (Some (Addr (length (objs s)))), s\<lparr>objs := objs s @ [ob]\<rparr>)"

definition newError :: "string \<Rightarrow> ref option M" where
  "newError message = new (Error message)"

text \<open>
  \<open>newError(format)\<close> without operands is \<open>fmt.Sprintf(format)\<close>: a format without a percent
  sign is the message as it is.  (Where \<open>newError\<close> has operands, the format is a constant
  with \<open>%s\<close> verbs and the operands are strings, which \<open>%s\<close> prints as they are: there the
  message is written out as a concatenation.)
\<close>

definition Sprintf :: "decls \<Rightarrow> string \<Rightarrow> string" where
  "Sprintf D format = (if CHR ''%'' \<in> set format then missing_operands D format else format)"

text \<open>
  Modelled from the spec: package \<open>object\<close> with \<open>Environment\<close> is not among the sources.
  \<open>Get\<close> walks outward through the chain until the name is found or the chain is
  exhausted, \<open>Set\<close> writes into the current frame only, \<open>NewEnclosedEnvironment\<close> makes a
  child frame that refers to its parent.
\<close>

fun Get :: "state \<Rightarrow> environment \<Rightarrow> string \<Rightarrow> ref option option" where
  "Get s (Environment a None) name = (frames s ! a) name"
| "Get s (Environment a (Some out)) name =
     (case (frames s ! a) name of
        Some v \<Rightarrow> Some v
      | None \<Rightarrow> Get s out name)"

definition Set :: "environment \<Rightarrow> string \<Rightarrow> ref option \<Rightarrow> unit M" where
  "Set env name val s =
     Some (Ok (), s\<lparr>frames := (frames s)[store env := (frames s ! store env)(name \<mapsto> val)]\<rparr>)"

definition NewEnclosedEnvironment :: "environment \<Rightarrow> environment M" where
  "NewEnclosedEnvironment out s =
     Some (Ok (Environment (length (frames s)) (Some out)), s\<lparr>frames := frames s @ [Map.empty]\<rparr>)"

section \<open>The evaluator's helper functions\<close>

text \<open>
  A method call on a \<open>nil\<close> interface value (\<open>right.Type()\<close> with \<open>right == nil\<close>) is a
  runtime panic in Go; \<open>TypeOf\<close> is that method call.  \<open>bothOfType\<close> is the test
  \<open>left.Type() == t && right.Type() == t\<close> with the short-circuit of \<open>&&\<close>.
\<close>

definition TypeOf :: "ref option \<Rightarrow> ObjectType M" where
  "TypeOf ob s = (case ob of None \<Rightarrow> panic s | Some r \<Rightarrow> return (Type (deref s r)) s)"

definition bothOfType :: "ObjectType \<Rightarrow> ref option \<Rightarrow> ref option \<Rightarrow> bool M" where
  "bothOfType t left right =
     andThen (TypeOf left) (\<lambda>lt.
       if lt = t then andThen (TypeOf right) (\<lambda>rt. return (rt = t)) else return False)"

text \<open>A type assertion to \<open>*object.Integer\<close> and so on panics on an object of another type.\<close>

definition IntegerValue :: "ref option \<Rightarrow> 64 word M" where
  "IntegerValue ob s =
     (case ob of
        None \<Rightarrow> panic s
      | Some r \<Rightarrow> (case deref s r of Integer v \<Rightarrow> return v s | _ \<Rightarrow> panic s))"

definition StringValue :: "ref option \<Rightarrow> string M" where
  "StringValue ob s =
     (case ob of
        None \<Rightarrow> panic s
      | Some r \<Rightarrow> (case deref s r of String v \<Rightarrow> return v s | _ \<Rightarrow> panic s))"

definition ArrayElements :: "ref option \<Rightarrow> ref option list M" where
  "ArrayElements ob s =
     (case ob of
        None \<Rightarrow> panic s
      | Some r \<Rightarrow> (case deref s r of Array es \<Rightarrow> return es s | _ \<Rightarrow> panic s))"

definition HashPairs :: "ref option \<Rightarrow> (HashKey \<rightharpoonup> (ref option \<times> ref option)) M" where
  "HashPairs ob s =
     (case ob of
        None \<Rightarrow> panic s
      | Some r \<Rightarrow> (case deref s r of Hash ps \<Rightarrow> return ps s | _ \<Rightarrow> panic s))"

text \<open>
  \<open>key, ok := index.(object.Hashable)\<close>: the assertion is ok for a hashable object, and
  \<open>key.HashKey()\<close> is then its hash key.
\<close>

definition isHashable :: "state \<Rightarrow> ref option \<Rightarrow> bool" where
  "isHashable s ob = (case ob of None \<Rightarrow> False | Some r \<Rightarrow> Hashable (deref s r))"

definition HashKeyOf :: "decls \<Rightarrow> ref option \<Rightarrow> HashKey M" where
  "HashKeyOf D ob s =
     (case ob of None \<Rightarrow> panic s | Some r \<Rightarrow> return (hash_key D (deref s r)) s)"

definition isError :: "state \<Rightarrow> ref option \<Rightarrow> bool" where
  "isError s ob = (case ob of None \<Rightarrow> False | Some r \<Rightarrow> Type (deref s r) = ERROR_OBJ)"

definition nativeBoolToBooleanObject :: "bool \<Rightarrow> ref" where
  "nativeBoolToBooleanObject input = (if input then TRUE else FALSE)"

fun isTruthy :: "ref option \<Rightarrow> bool" where
  "isTruthy (Some NULL) = False"
| "isTruthy (Some TRUE) = True"
| "isTruthy (Some FALSE) = False"
| "isTruthy ob = True"

fun evalBangOperatorExpression :: "ref option \<Rightarrow> ref" where
  "evalBangOperatorExpression (Some TRUE) = FALSE"
| "evalBangOperatorExpression (Some FALSE) = TRUE"
| "evalBangOperatorExpression (Some NULL) = TRUE"
| "evalBangOperatorExpression ob = FALSE"

definition evalMinusPrefixOperatorExpression :: "decls \<Rightarrow> ref option \<Rightarrow> ref option M" where
  "evalMinusPrefixOperatorExpression D right =
     andThen (TypeOf right) (\<lambda>rt.
       if rt \<noteq> INTEGER_OBJ then newError (''unknown operator: -'' @ type_name D rt)
       else andThen (IntegerValue right) (\<lambda>v. new (Integer (- v))))"

definition evalPrefixExpression :: "decls \<Rightarrow> string \<Rightarrow> ref option \<Rightarrow> ref option M" where
  "evalPrefixExpression D operator right =
     (if operator = ''!'' then return (Some (evalBangOperatorExpression right))
      else if operator = ''-'' then evalMinusPrefixOperatorExpression D right
      else andThen (TypeOf right) (\<lambda>rt.
             newError (''unknown operator: '' @ operator @ type_name D rt)))"

text \<open>
  Go's \<open>+\<close>, \<open>-\<close> and \<open>*\<close> on \<open>int64\<close> wrap around; \<open>/\<close> truncates towards zero
  (\<open>sdiv\<close> on \<open>int\<close>), wraps around for the most negative value divided by \<open>-1\<close>, and
  panics on a zero divisor.
\<close>

definition int64_quo :: "64 word \<Rightarrow> 64 word \<Rightarrow> 64 word" where
  "int64_quo x y = word_of_int (sint x sdiv sint y)"

definition evalIntegerInfixExpression ::
    "decls \<Rightarrow> string \<Rightarrow> ref option \<Rightarrow> ref option \<Rightarrow> ref option M" where
  "evalIntegerInfixExpression D operator left right =
     andThen (IntegerValue left) (\<lambda>leftVal.
     andThen (IntegerValue right) (\<lambda>rightVal.
       if operator = ''+'' then new (Integer (leftVal + rightVal))
       else if operator = ''-'' then new (Integer (leftVal - rightVal))
       else if operator = ''*'' then new (Integer (leftVal * rightVal))
       else if operator = ''/'' then
         (if rightVal = 0 then panic else new (Integer (int64_quo leftVal rightVal)))
       else if operator = ''<'' then
         return (Some (nativeBoolToBooleanObject (sint leftVal < sint rightVal)))
       else if operator = ''>'' then
         return (Some (nativeBoolToBooleanObject (sint leftVal > sint rightVal)))
       else if operator = ''=='' then
         return (Some (nativeBoolToBooleanObject (leftVal = rightVal)))
       else if operator = ''!='' then
         return (Some (nativeBoolToBooleanObject (leftVal \<noteq> rightVal)))
       else andThen (TypeOf left) (\<lambda>lt. andThen (TypeOf right) (\<lambda>rt.
              newError (''unknown operator: '' @ type_name D lt @ '' '' @ operator
                          @ '' '' @ type_name D rt)))))"

definition evalStringInfixExpression ::
    "decls \<Rightarrow> string \<Rightarrow> ref option \<Rightarrow> ref option \<Rightarrow> ref option M" where
  "evalStringInfixExpression D operator left right =
     (if operator \<noteq> ''+'' then
        andThen (TypeOf left) (\<lambda>lt. andThen (TypeOf right) (\<lambda>rt.
          newError (''unknown operator: '' @ type_name D lt @ '' '' @ operator
                      @ '' '' @ type_name D rt)))
      else
        andThen (StringValue left) (\<lambda>leftVal.
        andThen (StringValue right) (\<lambda>rightVal.
          new (String (leftVal @ rightVal)))))"

definition evalInfixExpression ::
    "decls \<Rightarrow> string \<Rightarrow> ref option \<Rightarrow> ref option \<Rightarrow> ref option M" where
  "evalInfixExpression D operator left right =
     andThen (bothOfType INTEGER_OBJ left right) (\<lambda>ints.
       if ints then evalIntegerInfixExpression D operator left right
       else if operator = ''=='' then return (Some (nativeBoolToBooleanObject (left = right)))
       else if operator = ''!='' then return (Some (nativeBoolToBooleanObject (left \<noteq> right)))
       else andThen (bothOfType STRING_OBJ left right) (\<lambda>strings.
         if strings then evalStringInfixExpression D operator left right
         else andThen (TypeOf left) (\<lambda>lt. andThen (TypeOf right) (\<lambda>rt.
           if lt \<noteq> rt then
             newError (''type mismatch: '' @ type_name D lt @ '' '' @ operator
                         @ '' '' @ type_name D rt)
           else
             newError (''unknown operator: '' @ type_name D lt @ '' '' @ operator
                         @ '' '' @ type_name D rt)))))"

text \<open>
  \<open>max := int64(len(arrayObject.Elements) - 1)\<close>; the index is a signed 64-bit value, and
  an index within the bounds reads the element.
\<close>

definition evalArrayIndexExpression :: "ref option \<Rightarrow> ref option \<Rightarrow> ref option M" where
  "evalArrayIndexExpression array index =
     andThen (ArrayElements array) (\<lambda>elements.
     andThen (IntegerValue index) (\<lambda>idx.
       let max = int (length elements) - 1 in
       if sint idx < 0 \<or> sint idx > max then return (Some NULL)
       else return (elements ! nat (sint idx))))"

definition evalHashIndexExpression :: "decls \<Rightarrow> ref option \<Rightarrow> ref option \<Rightarrow> ref option M" where
  "evalHashIndexExpression D hash index =
     andThen (HashPairs hash) (\<lambda>pairs s.
       if \<not> isHashable s index then
         andThen (TypeOf index) (\<lambda>it.
           newError (''unusable as hash key: '' @ type_name D it)) s
       else
         andThen (HashKeyOf D index) (\<lambda>key.
           case pairs key of
             None \<Rightarrow> return (Some NULL)
           | Some pair \<Rightarrow> return (snd pair)) s)"

definition evalIndexExpression :: "decls \<Rightarrow> ref option \<Rightarrow> ref option \<Rightarrow> ref option M" where
  "evalIndexExpression D left index =
     andThen (andThen (TypeOf left) (\<lambda>lt.
                if lt = ARRAY_OBJ then andThen (TypeOf index) (\<lambda>it. return (it = INTEGER_OBJ))
                else return False)) (\<lambda>arrayIndex.
       if arrayIndex then evalArrayIndexExpression left index
       else andThen (TypeOf left) (\<lambda>lt.
         if lt = HASH_OBJ then evalHashIndexExpression D left index
         else newError (''index operator not supported: '' @ type_name D lt)))"

definition evalIdentifier :: "decls \<Rightarrow> string \<Rightarrow> environment \<Rightarrow> ref option M" where
  "evalIdentifier D name env s =
     (case Get s env name of
        Some val \<Rightarrow> return val s
      | None \<Rightarrow>
          (case builtins D name of
             Some builtin \<Rightarrow> return (Some (BuiltinRef name)) s
           | None \<Rightarrow> newError (Sprintf D (''identifier not found: '' @ name)) s))"

fun unwrapReturnValue :: "state \<Rightarrow> ref option \<Rightarrow> ref option" where
  "unwrapReturnValue s None = None"
| "unwrapReturnValue s (Some r) = (case deref s r of ReturnValue v \<Rightarrow> v | _ \<Rightarrow> Some r)"

text \<open>
  \<open>extendFunctionEnv\<close>: the loop over the parameters reads \<open>args[paramIdx]\<close>, which panics
  when the index is not below \<open>len(args)\<close>.
\<close>

primrec bindParameters :: "environment \<Rightarrow> ref option list \<Rightarrow> string list \<Rightarrow> nat \<Rightarrow> unit M" where
  "bindParameters env args [] paramIdx = return ()"
| "bindParameters env args (param # rest) paramIdx =
     (if paramIdx < length args
      then andThen (Set env param (args ! paramIdx))
             (\<lambda>_. bindParameters env args rest (Suc paramIdx))
      else panic)"

definition extendFunctionEnv ::
    "string list \<Rightarrow> environment \<Rightarrow> ref option list \<Rightarrow> environment M" where
  "extendFunctionEnv parameters fnEnv args =
     andThen (NewEnclosedEnvironment fnEnv) (\<lambda>env.
     andThen (bindParameters env args parameters 0) (\<lambda>_. return env))"

section \<open>The recursive evaluator\<close>

text \<open>
  \<open>Eval\<close> and the functions it is mutually recursive with.  Each of them takes the
  evaluator for its recursive calls as \<open>ev\<close> (in the source: \<open>Eval(ctx, _, _)\<close>);
  \<open>Eval\<close> below ties the knot, bounded by the depth of the Go call stack.
\<close>

type_synonym evaluator = "node \<Rightarrow> environment \<Rightarrow> ref option M"

text \<open>The loop of \<open>evalProgram\<close>; \<open>result\<close> is the loop's variable of that name.\<close>

primrec evalProgramLoop ::
    "evaluator \<Rightarrow> environment \<Rightarrow> statement list \<Rightarrow> ref option \<Rightarrow> ref option M" where
  "evalProgramLoop ev env [] result = return result"
| "evalProgramLoop ev env (statement # rest) result =
     andThen (ev (Stmt statement) env) (\<lambda>result s.
       case result of
         None \<Rightarrow> evalProgramLoop ev env rest result s
       | Some r \<Rightarrow>
           (case deref s r of
              ReturnValue v \<Rightarrow> return v s
            | Error m \<Rightarrow> return result s
            | _ \<Rightarrow> evalProgramLoop ev env rest result s))"

definition evalProgram :: "evaluator \<Rightarrow> statement list \<Rightarrow> environment \<Rightarrow> ref option M" where
  "evalProgram ev statements env = evalProgramLoop ev env statements None"

primrec evalBlockLoop ::
    "evaluator \<Rightarrow> environment \<Rightarrow> statement list \<Rightarrow> ref option \<Rightarrow> ref option M" where
  "evalBlockLoop ev env [] result = return result"
| "evalBlockLoop ev env (statement # rest) result =
     andThen (ev (Stmt statement) env) (\<lambda>result s.
       case result of
         None \<Rightarrow> evalBlockLoop ev env rest result s
       | Some r \<Rightarrow>
           (let rt = Type (deref s r) in
            if rt = RETURN_VALUE_OBJ \<or> rt = ERROR_OBJ then return result s
            else evalBlockLoop ev env rest result s))"

definition evalBlockStatement ::
    "evaluator \<Rightarrow> statement list \<Rightarrow> environment \<Rightarrow> ref option M" where
  "evalBlockStatement ev block env = evalBlockLoop ev env block None"

primrec evalExpressionsLoop ::
    "evaluator \<Rightarrow> environment \<Rightarrow> expression list \<Rightarrow> ref option list \<Rightarrow> ref option list M" where
  "evalExpressionsLoop ev env [] result = return result"
| "evalExpressionsLoop ev env (e # rest) result =
     andThen (ev (Expr e) env) (\<lambda>evaluated s.
       if isError s evaluated then return [evaluated] s
       else evalExpressionsLoop ev env rest (result @ [evaluated]) s)"

definition evalExpressions ::
    "evaluator \<Rightarrow> expression list \<Rightarrow> environment \<Rightarrow> ref option list M" where
  "evalExpressions ev exps env = evalExpressionsLoop ev env exps []"

primrec evalHashLiteralLoop ::
    "decls \<Rightarrow> evaluator \<Rightarrow> environment \<Rightarrow> (expression \<times> expression) list \<Rightarrow>
     (HashKey \<rightharpoonup> (ref option \<times> ref option)) \<Rightarrow> ref option M" where
  "evalHashLiteralLoop D ev env [] pairs = new (Hash pairs)"
| "evalHashLiteralLoop D ev env (kv # rest) pairs =
     andThen (ev (Expr (fst kv)) env) (\<lambda>key s.
       if isError s key then return key s
       else if \<not> isHashable s key then
         andThen (TypeOf key) (\<lambda>kt.
           newError (''unusable as hash key: '' @ type_name D kt)) s
       else
         andThen (ev (Expr (snd kv)) env) (\<lambda>value s'.
           if isError s' value then return value s'
           else andThen (HashKeyOf D key) (\<lambda>hashed.
                  evalHashLiteralLoop D ev env rest (pairs(hashed \<mapsto> (key, value)))) s') s)"

definition evalHashLiteral ::
    "decls \<Rightarrow> evaluator \<Rightarrow> (expression \<times> expression) list \<Rightarrow> environment \<Rightarrow> ref option M" where
  "evalHashLiteral D ev pairs env = evalHashLiteralLoop D ev env pairs Map.empty"

definition evalIfExpression ::
    "evaluator \<Rightarrow> expression \<Rightarrow> statement list \<Rightarrow> statement list option \<Rightarrow> environment \<Rightarrow>
     ref option M" where
  "evalIfExpression ev condition consequence alternative env =
     andThen (ev (Expr condition) env) (\<lambda>cond s.
       if isError s cond then return cond s
       else if isTruthy cond then ev (Stmt (BlockStatement consequence)) env s
       else
         (case alternative of
            Some alt \<Rightarrow> ev (Stmt (BlockStatement alt)) env s
          | None \<Rightarrow> return (Some NULL) s))"

definition applyFunction ::
    "decls \<Rightarrow> evaluator \<Rightarrow> ref option \<Rightarrow> ref option list \<Rightarrow> ref option M" where
  "applyFunction D ev fn args s =
     (case fn of
        None \<Rightarrow> panic s
      | Some f \<Rightarrow>
          (case deref s f of
             Function parameters body fnEnv \<Rightarrow>
               andThen (extendFunctionEnv parameters fnEnv args) (\<lambda>extendedEnv.
               andThen (ev (Stmt (BlockStatement body)) extendedEnv) (\<lambda>evaluated s'.
                 return (unwrapReturnValue s' evaluated) s')) s
           | Builtin name \<Rightarrow>
               (case builtins D name of
                  None \<Rightarrow> panic s
                | Some Fn \<Rightarrow>
                    (case Fn args (objs s) of
                       None \<Rightarrow> panic s
                     | Some (result, objs') \<Rightarrow> return result (s\<lparr>objs := objs'\<rparr>)))
           | ob \<Rightarrow> newError (''not a function: '' @ type_name D (Type ob)) s))"

text \<open>The body of \<open>Eval\<close>: the check of the cancellation signal, then the type switch.\<close>

fun dispatch :: "decls \<Rightarrow> evaluator \<Rightarrow> node \<Rightarrow> environment \<Rightarrow> ref option M" where
  "dispatch D ev (Program statements) env = evalProgram ev statements env"
| "dispatch D ev (Stmt (BlockStatement block)) env = evalBlockStatement ev block env"
| "dispatch D ev (Stmt (ReturnStatement returnValue)) env =
     andThen (ev (Expr returnValue) env) (\<lambda>val s.
       if isError s val then return val s else new (ReturnValue val) s)"
| "dispatch D ev (Stmt (LetStatement name value)) env =
     andThen (ev (Expr value) env) (\<lambda>val s.
       if isError s val then return val s
       else andThen (Set env name val) (\<lambda>_. return None) s)"
| "dispatch D ev (Expr (Identifier name)) env = evalIdentifier D name env"
| "dispatch D ev (Stmt (ExpressionStatement e)) env = ev (Expr e) env"
| "dispatch D ev (Expr (FunctionLiteral params body)) env = new (Function params body env)"
| "dispatch D ev (Expr (IntegerLiteral v)) env = new (Integer v)"
| "dispatch D ev (Expr (StringLiteral v)) env = new (String v)"
| "dispatch D ev (Expr (BooleanLiteral v)) env = return (Some (nativeBoolToBooleanObject v))"
| "dispatch D ev (Expr (ArrayLiteral elems)) env =
     andThen (evalExpressions ev elems env) (\<lambda>elements s.
       if length elements = 1 \<and> isError s (elements ! 0) then return (elements ! 0) s
       else new (Array elements) s)"
| "dispatch D ev (Expr (HashLiteral pairs)) env = evalHashLiteral D ev pairs env"
| "dispatch D ev (Expr (IndexExpression l i)) env =
     andThen (ev (Expr l) env) (\<lambda>left s.
       if isError s left then return left s
       else andThen (ev (Expr i) env) (\<lambda>index s'.
              if isError s' index then return index s'
              else evalIndexExpression D left index s') s)"
| "dispatch D ev (Expr (PrefixExpression operator r)) env =
     andThen (ev (Expr r) env) (\<lambda>right s.
       if isError s right then return right s
       else evalPrefixExpression D operator right s)"
| "dispatch D ev (Expr (InfixExpression l operator r)) env =
     andThen (ev (Expr l) env) (\<lambda>left s.
       if isError s left then return left s
       else andThen (ev (Expr r) env) (\<lambda>right s'.
              if isError s' right then return right s'
              else evalInfixExpression D operator left right s') s)"
| "dispatch D ev (Expr (IfExpression condition consequence alternative)) env =
     evalIfExpression ev condition consequence alternative env"
| "dispatch D ev (Expr (CallExpression f arguments)) env =
     andThen (ev (Expr f) env) (\<lambda>function s.
       if isError s function then return function s
       else andThen (evalExpressions ev arguments env) (\<lambda>args s'.
              if length args = 1 \<and> isError s' (args ! 0) then return (args ! 0) s'
              else applyFunction D ev function args s') s)"

definition EvalBody :: "decls \<Rightarrow> Context \<Rightarrow> evaluator \<Rightarrow> node \<Rightarrow> environment \<Rightarrow> ref option M" where
  "EvalBody D ctx ev node env =
     andThen (ctxErr ctx) (\<lambda>err.
       case err of
         Some e \<Rightarrow> fail e
       | None \<Rightarrow> dispatch D ev node env)"

text \<open>
  \<open>Eval n\<close> allows \<open>n\<close> nested calls of \<open>Eval\<close>; a run that would nest deeper is \<open>None\<close>.
  (The interpreted language has unbounded recursion, so \<open>Eval\<close> need not return.)
\<close>

primrec Eval :: "nat \<Rightarrow> decls \<Rightarrow> Context \<Rightarrow> node \<Rightarrow> environment \<Rightarrow> ref option M" where
  "Eval 0 D ctx node env = (\<lambda>s. None)"
| "Eval (Suc n) D ctx node env = EvalBody D ctx (Eval n D ctx) node env"

section \<open>A start state and declarations for concrete runs\<close>

text \<open>
  \<open>NewEnvironment()\<close> of the read-eval-print loop: one empty frame without an enclosing
  environment, nothing allocated yet.  \<open>D0\<close> has an empty built-in table.
\<close>

definition s0 :: state where
  "s0 = \<lparr>objs = [], frames = [Map.empty], clock = 0\<rparr>"

definition env0 :: environment where
  "env0 = Environment 0 None"

definition never :: Context where
  "never = (\<lambda>k. None)"

fun sample_type_name :: "ObjectType \<Rightarrow> string" where
  "sample_type_name INTEGER_OBJ = ''INTEGER''"
| "sample_type_name BOOLEAN_OBJ = ''BOOLEAN''"
| "sample_type_name NULL_OBJ = ''NULL''"
| "sample_type_name RETURN_VALUE_OBJ = ''RETURN_VALUE''"
| "sample_type_name ERROR_OBJ = ''ERROR''"
| "sample_type_name FUNCTION_OBJ = ''FUNCTION''"
| "sample_type_name STRING_OBJ = ''STRING''"
| "sample_type_name BUILTIN_OBJ = ''BUILTIN''"
| "sample_type_name ARRAY_OBJ = ''ARRAY''"
| "sample_type_name HASH_OBJ = ''HASH''"

text \<open>
  A sample hash key that tells the hashable objects apart: the kind in the remainder
  modulo 3, the payload (a string as the number of its characters) in the quotient.
\<close>

primrec string_code :: "string \<Rightarrow> nat" where
  "string_code [] = 0"
| "string_code (c # cs) = Suc (of_char c + 256 * string_code cs)"

fun sample_hash_key :: "obj \<Rightarrow> HashKey" where
  "sample_hash_key (Integer v) = 3 * unat v"
| "sample_hash_key (Boolean b) = 3 * (if b then 1 else 0) + 1"
| "sample_hash_key (String v) = 3 * string_code v + 2"
| "sample_hash_key ob = 0"

definition D0 :: decls where
  "D0 = \<lparr>builtins = Map.empty, type_name = sample_type_name, hash_key = sample_hash_key,
          missing_operands = (\<lambda>format. format)\<rparr>"

section \<open>Predicates on runs\<close>

text \<open>
  \<open>reads_clear ctx i j\<close>: the reads number \<open>i\<close> up to \<open>j - 1\<close> of the cancellation signal
  all saw that the run is not cancelled.  A call \<open>honours\<close> the signal when a result or a
  panic means that every read during the call was clear, and a returned \<open>error\<close> is what
  the last read saw.  A call is \<open>quiet\<close> when it returns without reading the signal and
  without an \<open>error\<close>.
\<close>

definition reads_clear :: "Context \<Rightarrow> nat \<Rightarrow> nat \<Rightarrow> bool" where
  "reads_clear ctx i j = (\<forall>t\<in>{i..<j}. ctx t = None)"

definition honours :: "Context \<Rightarrow> state \<Rightarrow> ('a outcome \<times> state) option \<Rightarrow> bool" where
  "honours ctx s x =
     (case x of
        None \<Rightarrow> True
      | Some (Err e, s') \<Rightarrow>
          clock s < clock s' \<and> reads_clear ctx (clock s) (clock s' - 1) \<and> ctx (clock s' - 1) = Some e
      | Some (r, s') \<Rightarrow> clock s \<le> clock s' \<and> reads_clear ctx (clock s) (clock s'))"

definition quiet :: "state \<Rightarrow> ('a outcome \<times> state) option \<Rightarrow> bool" where
  "quiet s x =
     (case x of
        None \<Rightarrow> False
      | Some (Err e, s') \<Rightarrow> False
      | Some (r, s') \<Rightarrow> clock s' = clock s)"

section \<open>Notions used in the statements\<close>

text \<open>
  The operators that \<open>evalInfixExpression\<close> has a case for, by the kind of the two
  operands: the cases of \<open>evalIntegerInfixExpression\<close>, of \<open>evalStringInfixExpression\<close>
  together with the two identity comparisons, and the two identity comparisons alone.
\<close>

definition supported :: "ObjectType \<Rightarrow> string set" where
  "supported t =
     (if t = INTEGER_OBJ then {''+'', ''-'', ''*'', ''/'', ''<'', ''>'', ''=='', ''!=''}
      else if t = STRING_OBJ then {''+'', ''=='', ''!=''}
      else {''=='', ''!=''})"

text \<open>
  A statement's result \<open>stops\<close> a sequence when it is a \<open>ReturnValue\<close> or an \<open>Error\<close> object.
  \<open>passes ev env statements s\<close> evaluates the statements in order from state \<open>s\<close> and is
  the state reached when every one of them returns a result that does not stop the
  sequence.
\<close>

definition stops :: "state \<Rightarrow> ref option \<Rightarrow> bool" where
  "stops s result =
     (case result of
        None \<Rightarrow> False
      | Some r \<Rightarrow> Type (deref s r) = RETURN_VALUE_OBJ \<or> Type (deref s r) = ERROR_OBJ)"

primrec passes :: "evaluator \<Rightarrow> environment \<Rightarrow> statement list \<Rightarrow> state \<Rightarrow> state option" where
  "passes ev env [] s = Some s"
| "passes ev env (statement # rest) s =
     (case ev (Stmt statement) env s of
        Some (Ok result, s1) \<Rightarrow> if stops s1 result then None else passes ev env rest s1
      | _ \<Rightarrow> None)"

text \<open>
  \<open>let newAdder = fn(x) { fn(y) { x + y } }; let addTwo = newAdder(2); addTwo(3);\<close> and
  \<open>let f = fn() { x }; let x = 7; f();\<close> as the parser builds them.
\<close>

definition closure_program :: node where
  "closure_program = Program [
     LetStatement ''newAdder'' (FunctionLiteral [''x'']
        [ExpressionStatement (FunctionLiteral [''y'']
           [ExpressionStatement (InfixExpression (Identifier ''x'') ''+'' (Identifier ''y''))])]),
     LetStatement ''addTwo'' (CallExpression (Identifier ''newAdder'') [IntegerLiteral 2]),
     ExpressionStatement (CallExpression (Identifier ''addTwo'') [IntegerLiteral 3])]"

definition late_binding_program :: node where
  "late_binding_program = Program [
     LetStatement ''f'' (FunctionLiteral [] [ExpressionStatement (Identifier ''x'')]),
     LetStatement ''x'' (IntegerLiteral 7),
     ExpressionStatement (CallExpression (Identifier ''f'') [])]"

section \<open>Well-formed heaps\<close>

text \<open>
  What every run keeps true of the heap.  A reference is \<open>ok\<close> when it is one of the
  singletons, a built-in, or the address of an allocated object; an environment is \<open>ok\<close>
  when its frames exist.  In a well-formed heap (\<open>heap_ok\<close>) the allocated objects and the
  frames hold only such references and environments, and no allocated object is a
  \<open>Boolean\<close> or a \<open>Null\<close>: the evaluator never allocates one, it hands out \<open>TRUE\<close>, \<open>FALSE\<close>
  and \<open>NULL\<close>.  \<open>builtins_ok\<close> asks the same of the built-ins, which are not among the
  sources: a built-in called on a well-formed heap leaves one, only adds to it, and returns
  a reference into it.

  \<open>sound V s x\<close>: the outcome \<open>x\<close> of a call made in the well-formed state \<open>s\<close> is a
  well-formed state that has only grown, with a result that satisfies \<open>V\<close> there.
\<close>

fun ok_ref :: "nat \<Rightarrow> ref \<Rightarrow> bool" where
  "ok_ref n (Addr a) = (a < n)"
| "ok_ref n r = True"

definition ok_val :: "nat \<Rightarrow> ref option \<Rightarrow> bool" where
  "ok_val n v = (case v of None \<Rightarrow> True | Some r \<Rightarrow> ok_ref n r)"

fun ok_env :: "nat \<Rightarrow> environment \<Rightarrow> bool" where
  "ok_env m (Environment a None) = (a < m)"
| "ok_env m (Environment a (Some out)) = (a < m \<and> ok_env m out)"

fun ok_obj :: "nat \<Rightarrow> nat \<Rightarrow> obj \<Rightarrow> bool" where
  "ok_obj n m (Boolean b) = False"
| "ok_obj n m Null = False"
| "ok_obj n m (Array es) = (\<forall>e\<in>set es. ok_val n e)"
| "ok_obj n m (Hash ps) = (\<forall>p\<in>ran ps. ok_val n (fst p) \<and> ok_val n (snd p))"
| "ok_obj n m (Function ps body e) = ok_env m e"
| "ok_obj n m (ReturnValue v) = ok_val n v"
| "ok_obj n m ob = True"

definition heap_ok :: "state \<Rightarrow> bool" where
  "heap_ok s = ((\<forall>ob\<in>set (objs s). ok_obj (length (objs s)) (length (frames s)) ob) \<and>
           (\<forall>fr\<in>set (frames s). \<forall>v\<in>ran fr. ok_val (length (objs s)) v))"

definition builtins_ok :: "decls \<Rightarrow> bool" where
  "builtins_ok D =
     (\<forall>name Fn args os m result os'.
        builtins D name = Some Fn \<and> Fn args os = Some (result, os') \<and>
        (\<forall>ob\<in>set os. ok_obj (length os) m ob) \<and> (\<forall>a\<in>set args. ok_val (length os) a) \<longrightarrow>
        (\<forall>ob\<in>set os'. ok_obj (length os') m ob) \<and> length os \<le> length os' \<and>
        ok_val (length os') result)"

definition val_ok :: "state \<Rightarrow> ref option \<Rightarrow> bool" where
  "val_ok s v = ok_val (length (objs s)) v"

definition vals_ok :: "state \<Rightarrow> ref option list \<Rightarrow> bool" where
  "vals_ok s vs = (\<forall>v\<in>set vs. val_ok s v)"

definition pairs_ok :: "state \<Rightarrow> (HashKey \<rightharpoonup> (ref option \<times> ref option)) \<Rightarrow> bool" where
  "pairs_ok s ps = (\<forall>p\<in>ran ps. val_ok s (fst p) \<and> val_ok s (snd p))"

definition env_ok :: "state \<Rightarrow> environment \<Rightarrow> bool" where
  "env_ok s env = ok_env (length (frames s)) env"

definition any_ok :: "state \<Rightarrow> 'a \<Rightarrow> bool" where
  "any_ok s x = True"

definition grows :: "state \<Rightarrow> state \<Rightarrow> bool" where
  "grows s s' = (length (objs s) \<le> length (objs s') \<and> length (frames s) \<le> length (frames s'))"

definition sound :: "(state \<Rightarrow> 'a \<Rightarrow> bool) \<Rightarrow> state \<Rightarrow> ('a outcome \<times> state) option \<Rightarrow> bool" where
  "sound V s x =
     (heap_ok s \<longrightarrow>
       (case x of
          None \<Rightarrow> True
        | Some (Ok v, s') \<Rightarrow> heap_ok s' \<and> grows s s' \<and> V s' v
        | Some (r, s') \<Rightarrow> heap_ok s' \<and> grows s s'))"

definition sound_evaluator :: "evaluator \<Rightarrow> bool" where
  "sound_evaluator ev = (\<forall>node env s. env_ok s env \<longrightarrow> sound val_ok s (ev node env s))"

section \<open>Sequencing laws\<close>

lemma andThen_Ok: "m s = Some (Ok x, s1) \<Longrightarrow> andThen m f s = f x s1"
  by (simp add: andThen_def)

lemma andThen_Err: "m s = Some (Err e, s1) \<Longrightarrow> andThen m f s = Some (Err e, s1)"
  by (simp add: andThen_def)

lemma andThen_Panic: "m s = Some (Panic, s1) \<Longrightarrow> andThen m f s = Some (Panic, s1)"
  by (simp add: andThen_def)

lemma andThen_None: "m s = None \<Longrightarrow> andThen m f s = None"
  by (simp add: andThen_def)

lemma andThen_return: "andThen (return x) f s = f x s"
  by (simp add: andThen_def return_def)

lemma andThen_panic: "andThen panic f s = Some (Panic, s)"
  by (simp add: andThen_def panic_def)

lemma TypeOf_Some: "TypeOf (Some r) s = Some (Ok (Type (deref s r)), s)"
  by (simp add: TypeOf_def return_def)

lemma TypeOf_None: "TypeOf None s = Some (Panic, s)"
  by (simp add: TypeOf_def panic_def)

lemma bothOfType_Some:
  "bothOfType t (Some l) (Some r) s =
     Some (Ok (Type (deref s l) = t \<and> Type (deref s r) = t), s)"
  by (simp add: bothOfType_def andThen_def TypeOf_Some return_def)

lemma IntegerValue_Integer: "deref s r = Integer v \<Longrightarrow> IntegerValue (Some r) s = Some (Ok v, s)"
  by (simp add: IntegerValue_def return_def)

lemma StringValue_String: "deref s r = String v \<Longrightarrow> StringValue (Some r) s = Some (Ok v, s)"
  by (simp add: StringValue_def return_def)

lemma ArrayElements_Array: "deref s r = Array es \<Longrightarrow> ArrayElements (Some r) s = Some (Ok es, s)"
  by (simp add: ArrayElements_def return_def)

lemma Eval_Suc_not_cancelled:
  "ctx (clock s) = None \<Longrightarrow>
   Eval (Suc n) D ctx node env s = dispatch D (Eval n D ctx) node env (s\<lparr>clock := Suc (clock s)\<rparr>)"
  by (simp add: EvalBody_def andThen_def ctxErr_def)

lemma Eval_Suc_cancelled:
  "ctx (clock s) = Some e \<Longrightarrow>
   Eval (Suc n) D ctx node env s = Some (Err e, s\<lparr>clock := Suc (clock s)\<rparr>)"
  by (simp add: EvalBody_def andThen_def ctxErr_def fail_def)

declare Eval.simps(2) [simp del]

lemma Eval_IntegerLiteral:
  "ctx (clock s) = None \<Longrightarrow>
   Eval (Suc n) D ctx (Expr (IntegerLiteral v)) env s =
     Some (Ok (Some (Addr (length (objs s)))),
           s\<lparr>clock := Suc (clock s), objs := objs s @ [Integer v]\<rparr>)"
  by (simp add: Eval_Suc_not_cancelled new_def)

lemma Eval_StringLiteral:
  "ctx (clock s) = None \<Longrightarrow>
   Eval (Suc n) D ctx (Expr (StringLiteral v)) env s =
     Some (Ok (Some (Addr (length (objs s)))),
           s\<lparr>clock := Suc (clock s), objs := objs s @ [String v]\<rparr>)"
  by (simp add: Eval_Suc_not_cancelled new_def)

lemma Eval_InfixExpression:
  assumes "ctx (clock s) = None"
    and "Eval n D ctx (Expr l) env (s\<lparr>clock := Suc (clock s)\<rparr>) = Some (Ok left, s1)"
    and "\<not> isError s1 left"
    and "Eval n D ctx (Expr r) env s1 = Some (Ok right, s2)"
    and "\<not> isError s2 right"
  shows "Eval (Suc n) D ctx (Expr (InfixExpression l operator r)) env s =
           evalInfixExpression D operator left right s2"
  using assms by (simp add: Eval_Suc_not_cancelled andThen_def)

section \<open>Integer arithmetic\<close>

lemma sdiv_bounds:
  fixes x y :: int
  assumes lo: "- (2 ^ 63) \<le> x" and hi: "x < 2 ^ 63" and ex: "\<not> (x = - (2 ^ 63) \<and> y = - 1)"
  shows "- (2 ^ 63) \<le> x sdiv y \<and> x sdiv y < 2 ^ 63"
proof -
  define q where "q = \<bar>x\<bar> div \<bar>y\<bar>"
  have q0: "0 \<le> q"
    by (simp add: q_def pos_imp_zdiv_nonneg_iff div_int_pos_iff)
  have qle: "q \<le> \<bar>x\<bar>"
  proof (cases "x = 0")
    case True
    then show ?thesis by (simp add: q_def)
  next
    case False
    then have "0 < \<bar>x\<bar>" by simp
    then show ?thesis unfolding q_def by (rule int_div_le_self)
  qed
  have sd: "x sdiv y = sgn x * sgn y * q"
    by (simp add: signed_divide_int_def q_def)
  have ab: "\<bar>x sdiv y\<bar> \<le> q"
    using q0 by (simp add: sd abs_mult abs_sgn_eq)
  show ?thesis
  proof (cases "q < 2 ^ 63")
    case True
    with ab show ?thesis by linarith
  next
    case False
    with qle lo hi have x: "x = - (2 ^ 63)" and q: "q = \<bar>x\<bar>" by linarith+
    have "\<bar>y\<bar> = 1"
    proof (rule ccontr)
      assume n: "\<bar>y\<bar> \<noteq> 1"
      show False
      proof (cases "y = 0")
        case True
        with q x show False by (simp add: q_def)
      next
        case False
        with n have "1 < \<bar>y\<bar>" by linarith
        moreover have "0 < \<bar>x\<bar>" using x by simp
        ultimately have "\<bar>x\<bar> div \<bar>y\<bar> < \<bar>x\<bar>" by (rule int_div_less_self[rotated])
        with q show False by (simp add: q_def)
      qed
    qed
    with ex x have "y = 1" by linarith
    with x show ?thesis by (simp add: signed_divide_int_def)
  qed
qed

lemma sint_int64_quo:
  assumes "\<not> (a = - (2 ^ 63) \<and> b = - 1)"
  shows "sint (int64_quo a b) = sint a sdiv sint b"
proof -
  have "- (2 ^ 63) \<le> sint a" "sint a < 2 ^ 63"
    using sint_ge[of a] sint_lt[of a] by simp_all
  moreover have "\<not> (sint a = - (2 ^ 63) \<and> sint b = - 1)"
  proof
    assume h: "sint a = - (2 ^ 63) \<and> sint b = - 1"
    have "a = word_of_int (sint a)" "b = word_of_int (sint b)" by simp_all
    with h have "a = - (2 ^ 63) \<and> b = - 1" by simp
    with assms show False by simp
  qed
  ultimately have "- (2 ^ 63) \<le> sint a sdiv sint b \<and> sint a sdiv sint b < 2 ^ 63"
    by (rule sdiv_bounds)
  then show ?thesis
    unfolding int64_quo_def
    by (simp add: sint_sbintrunc' signed_take_bit_int_eq_self)
qed

lemma int64_quo_most_negative: "int64_quo (- (2 ^ 63)) (- 1) = - (2 ^ 63)"
  by (simp add: int64_quo_def signed_divide_int_def)

lemma evalInfix_Integer:
  assumes "deref s l = Integer a" and "deref s r = Integer b"
  shows "evalInfixExpression D operator (Some l) (Some r) s =
         evalIntegerInfixExpression D operator (Some l) (Some r) s"
  using assms by (simp add: evalInfixExpression_def andThen_def bothOfType_Some)

lemma evalIntegerInfix_arith:
  assumes "deref s l = Integer a" and "deref s r = Integer b"
  shows "evalIntegerInfixExpression D ''+'' (Some l) (Some r) s = new (Integer (a + b)) s"
    and "evalIntegerInfixExpression D ''-'' (Some l) (Some r) s = new (Integer (a - b)) s"
    and "evalIntegerInfixExpression D ''*'' (Some l) (Some r) s = new (Integer (a * b)) s"
    and "evalIntegerInfixExpression D ''/'' (Some l) (Some r) s =
           (if b = 0 then Some (Panic, s) else new (Integer (int64_quo a b)) s)"
  using assms
  by (simp_all add: evalIntegerInfixExpression_def andThen_def IntegerValue_Integer panic_def)

lemma Eval_Integer_operands:
  assumes "ctx (clock s) = None" and "ctx (Suc (clock s)) = None"
    and "ctx (Suc (Suc (clock s))) = None"
  shows "Eval (Suc (Suc n)) D ctx
           (Expr (InfixExpression (IntegerLiteral a) operator (IntegerLiteral b))) env s =
         evalIntegerInfixExpression D operator
           (Some (Addr (length (objs s)))) (Some (Addr (Suc (length (objs s)))))
           (s\<lparr>clock := Suc (Suc (Suc (clock s))), objs := objs s @ [Integer a, Integer b]\<rparr>)"
proof -
  let ?s1 = "s\<lparr>clock := Suc (Suc (clock s)), objs := objs s @ [Integer a]\<rparr>"
  let ?s2 = "s\<lparr>clock := Suc (Suc (Suc (clock s))), objs := objs s @ [Integer a, Integer b]\<rparr>"
  have l: "Eval (Suc n) D ctx (Expr (IntegerLiteral a)) env (s\<lparr>clock := Suc (clock s)\<rparr>) =
             Some (Ok (Some (Addr (length (objs s)))), ?s1)"
    using assms(2) by (simp add: Eval_IntegerLiteral)
  have r: "Eval (Suc n) D ctx (Expr (IntegerLiteral b)) env ?s1 =
             Some (Ok (Some (Addr (Suc (length (objs s))))), ?s2)"
    using assms(3) by (simp add: Eval_IntegerLiteral)
  have "Eval (Suc (Suc n)) D ctx
           (Expr (InfixExpression (IntegerLiteral a) operator (IntegerLiteral b))) env s =
        evalInfixExpression D operator
           (Some (Addr (length (objs s)))) (Some (Addr (Suc (length (objs s))))) ?s2"
    by (rule Eval_InfixExpression [OF assms(1) l _ r]) (simp_all add: isError_def nth_append)
  also have "\<dots> = evalIntegerInfixExpression D operator
           (Some (Addr (length (objs s)))) (Some (Addr (Suc (length (objs s))))) ?s2"
    by (rule evalInfix_Integer [where a = a and b = b]) (simp_all add: nth_append)
  finally show ?thesis .
qed

text \<open>
  C7.  For all signed 64-bit integers \<open>a\<close> and \<open>b\<close> with \<open>b \<noteq> 0\<close>, evaluating the infix
  expressions \<open>a + b\<close>, \<open>a - b\<close>, \<open>a * b\<close> and \<open>a / b\<close> (while the run is not cancelled)
  allocates the two operands and then an \<open>Integer\<close> object that holds the result of Go's
  operator on \<open>int64\<close>: the sum, difference and product in two's complement, and the
  quotient truncated towards zero (read as signed numbers: the exact result wrapped to
  64 bits).
\<close>

theorem integer_arithmetic:
  assumes "b \<noteq> 0"
    and "ctx (clock s) = None" and "ctx (Suc (clock s)) = None"
    and "ctx (Suc (Suc (clock s))) = None"
  shows
    "Eval (Suc (Suc n)) D ctx (Expr (InfixExpression (IntegerLiteral a) ''+'' (IntegerLiteral b))) env s =
       Some (Ok (Some (Addr (Suc (Suc (length (objs s)))))),
             s\<lparr>clock := Suc (Suc (Suc (clock s))),
               objs := objs s @ [Integer a, Integer b, Integer (a + b)]\<rparr>) \<and>
     Eval (Suc (Suc n)) D ctx (Expr (InfixExpression (IntegerLiteral a) ''-'' (IntegerLiteral b))) env s =
       Some (Ok (Some (Addr (Suc (Suc (length (objs s)))))),
             s\<lparr>clock := Suc (Suc (Suc (clock s))),
               objs := objs s @ [Integer a, Integer b, Integer (a - b)]\<rparr>) \<and>
     Eval (Suc (Suc n)) D ctx (Expr (InfixExpression (IntegerLiteral a) ''*'' (IntegerLiteral b))) env s =
       Some (Ok (Some (Addr (Suc (Suc (length (objs s)))))),
             s\<lparr>clock := Suc (Suc (Suc (clock s))),
               objs := objs s @ [Integer a, Integer b, Integer (a * b)]\<rparr>) \<and>
     Eval (Suc (Suc n)) D ctx (Expr (InfixExpression (IntegerLiteral a) ''/'' (IntegerLiteral b))) env s =
       Some (Ok (Some (Addr (Suc (Suc (length (objs s)))))),
             s\<lparr>clock := Suc (Suc (Suc (clock s))),
               objs := objs s @ [Integer a, Integer b, Integer (int64_quo a b)]\<rparr>) \<and>
     sint (a + b) = signed_take_bit 63 (sint a + sint b) \<and>
     sint (a - b) = signed_take_bit 63 (sint a - sint b) \<and>
     sint (a * b) = signed_take_bit 63 (sint a * sint b) \<and>
     sint (int64_quo a b) = signed_take_bit 63 (sint a sdiv sint b) \<and>
     (\<not> (a = - (2 ^ 63) \<and> b = - 1) \<longrightarrow> sint (int64_quo a b) = sint a sdiv sint b)"
proof -
  let ?s2 = "s\<lparr>clock := Suc (Suc (Suc (clock s))), objs := objs s @ [Integer a, Integer b]\<rparr>"
  have da: "deref ?s2 (Addr (length (objs s))) = Integer a"
    and db: "deref ?s2 (Addr (Suc (length (objs s)))) = Integer b"
    by (simp_all add: nth_append)
  note ar = evalIntegerInfix_arith [OF da db]
  note ev = Eval_Integer_operands [OF assms(2-4)]
  have e1: "Eval (Suc (Suc n)) D ctx
              (Expr (InfixExpression (IntegerLiteral a) ''+'' (IntegerLiteral b))) env s =
            Some (Ok (Some (Addr (Suc (Suc (length (objs s)))))),
                  s\<lparr>clock := Suc (Suc (Suc (clock s))),
                    objs := objs s @ [Integer a, Integer b, Integer (a + b)]\<rparr>)"
    by (simp add: ev ar new_def)
  have e2: "Eval (Suc (Suc n)) D ctx
              (Expr (InfixExpression (IntegerLiteral a) ''-'' (IntegerLiteral b))) env s =
            Some (Ok (Some (Addr (Suc (Suc (length (objs s)))))),
                  s\<lparr>clock := Suc (Suc (Suc (clock s))),
                    objs := objs s @ [Integer a, Integer b, Integer (a - b)]\<rparr>)"
    by (simp add: ev ar new_def)
  have e3: "Eval (Suc (Suc n)) D ctx
              (Expr (InfixExpression (IntegerLiteral a) ''*'' (IntegerLiteral b))) env s =
            Some (Ok (Some (Addr (Suc (Suc (length (objs s)))))),
                  s\<lparr>clock := Suc (Suc (Suc (clock s))),
                    objs := objs s @ [Integer a, Integer b, Integer (a * b)]\<rparr>)"
    by (simp add: ev ar new_def)
  have e4: "Eval (Suc (Suc n)) D ctx
              (Expr (InfixExpression (IntegerLiteral a) ''/'' (IntegerLiteral b))) env s =
            Some (Ok (Some (Addr (Suc (Suc (length (objs s)))))),
                  s\<lparr>clock := Suc (Suc (Suc (clock s))),
                    objs := objs s @ [Integer a, Integer b, Integer (int64_quo a b)]\<rparr>)"
    using assms(1) by (simp add: ev ar new_def)
  have w4: "sint (int64_quo a b) = signed_take_bit 63 (sint a sdiv sint b)"
    by (simp add: int64_quo_def sint_sbintrunc')
  have w1: "sint (a + b) = signed_take_bit 63 (sint a + sint b)"
    and w2: "sint (a - b) = signed_take_bit 63 (sint a - sint b)"
    and w3: "sint (a * b) = signed_take_bit 63 (sint a * sint b)"
    by (simp_all add: sint_word_ariths)
  have x4: "\<not> (a = - (2 ^ 63) \<and> b = - 1) \<longrightarrow> sint (int64_quo a b) = sint a sdiv sint b"
    using sint_int64_quo by blast
  from e1 e2 e3 e4 w1 w2 w3 w4 x4 show ?thesis by blast
qed

theorem integer_arithmetic_witness:
  "Eval 2 D0 never (Expr (InfixExpression (IntegerLiteral (- 7)) ''/'' (IntegerLiteral 2))) env0 s0 =
     Some (Ok (Some (Addr 2)),
           \<lparr>objs = [Integer (- 7), Integer 2, Integer (- 3)], frames = [Map.empty], clock = 3\<rparr>)"
  using integer_arithmetic [of 2 never s0 0 D0 "- 7" env0]
  by (simp add: never_def s0_def int64_quo_def signed_divide_int_def eval_nat_numeral)

section \<open>Indexing an array\<close>

lemma evalArrayIndexExpression_eq:
  assumes "deref s arr = Array elements" and "deref s ix = Integer i"
  shows "evalArrayIndexExpression (Some arr) (Some ix) s =
         Some (Ok (if 0 \<le> sint i \<and> sint i < int (length elements)
                   then elements ! nat (sint i) else Some NULL), s)"
  using assms
  by (auto simp: evalArrayIndexExpression_def andThen_def ArrayElements_Array
      IntegerValue_Integer return_def Let_def)

text \<open>
  C8.  For every array object and every integer index \<open>i\<close> (a signed 64-bit value),
  indexing leaves the state as it is and returns the \<open>i\<close>-th element when
  \<open>0 \<le> i < length\<close>, and the singleton \<open>NULL\<close> (no \<open>Error\<close> object is allocated) when \<open>i\<close> is
  negative or at least the length.
\<close>

theorem array_index:
  assumes "deref s arr = Array elements" and "deref s ix = Integer i"
  shows "evalIndexExpression D (Some arr) (Some ix) s =
           Some (Ok (if 0 \<le> sint i \<and> sint i < int (length elements)
                     then elements ! nat (sint i) else Some NULL), s) \<and>
         evalArrayIndexExpression (Some arr) (Some ix) s =
           Some (Ok (if 0 \<le> sint i \<and> sint i < int (length elements)
                     then elements ! nat (sint i) else Some NULL), s)"
  using assms
  by (simp add: evalIndexExpression_def andThen_def TypeOf_Some return_def
      evalArrayIndexExpression_eq del: One_nat_def)

theorem array_index_witness:
  "evalIndexExpression D0 (Some (Addr 3)) (Some (Addr 4))
     \<lparr>objs = [Integer 1, Integer 2, Integer 3,
              Array [Some (Addr 0), Some (Addr 1), Some (Addr 2)], Integer (- 1)],
      frames = [Map.empty], clock = 6\<rparr> =
   Some (Ok (Some NULL),
     \<lparr>objs = [Integer 1, Integer 2, Integer 3,
              Array [Some (Addr 0), Some (Addr 1), Some (Addr 2)], Integer (- 1)],
      frames = [Map.empty], clock = 6\<rparr>)"
  using array_index [of "\<lparr>objs = [Integer 1, Integer 2, Integer 3,
              Array [Some (Addr 0), Some (Addr 1), Some (Addr 2)], Integer (- 1)],
      frames = [Map.empty], clock = 6\<rparr>" "Addr 3" "[Some (Addr 0), Some (Addr 1), Some (Addr 2)]"
      "Addr 4" "- 1" D0]
  by simp

text \<open>The examples of the specification: \<open>[1, 2, 3][2]\<close>, \<open>[1, 2, 3][3]\<close> and \<open>[1, 2, 3][-1]\<close>.\<close>

lemma array_examples:
  "\<exists>s'. Eval 3 D never (Expr (IndexExpression
            (ArrayLiteral [IntegerLiteral 1, IntegerLiteral 2, IntegerLiteral 3])
            (IntegerLiteral 2))) env0 s0 = Some (Ok (Some (Addr 2)), s') \<and>
         deref s' (Addr 2) = Integer 3"
  "\<exists>s'. Eval 3 D never (Expr (IndexExpression
            (ArrayLiteral [IntegerLiteral 1, IntegerLiteral 2, IntegerLiteral 3])
            (IntegerLiteral 3))) env0 s0 = Some (Ok (Some NULL), s')"
  "\<exists>s'. Eval 3 D never (Expr (IndexExpression
            (ArrayLiteral [IntegerLiteral 1, IntegerLiteral 2, IntegerLiteral 3])
            (IntegerLiteral (- 1)))) env0 s0 = Some (Ok (Some NULL), s')"
  by (simp_all add: eval_nat_numeral s0_def env0_def never_def Eval.simps(2) EvalBody_def
      andThen_def ctxErr_def evalExpressions_def new_def return_def isError_def
      evalIndexExpression_def evalArrayIndexExpression_def ArrayElements_def IntegerValue_def
      TypeOf_def nth_append)

section \<open>Cancellation\<close>

lemma quiet_honours: "quiet s x \<Longrightarrow> honours ctx s x"
  by (auto simp: quiet_def honours_def reads_clear_def split: option.splits outcome.splits prod.splits)

lemma quiet_andThen:
  assumes "quiet s (m s)" and "\<And>x s1. m s = Some (Ok x, s1) \<Longrightarrow> quiet s1 (f x s1)"
  shows "quiet s (andThen m f s)"
  using assms
  by (auto simp: quiet_def andThen_def split: option.splits outcome.splits prod.splits) 

lemma honours_andThen:
  assumes "honours ctx s (m s)" and "\<And>x s1. m s = Some (Ok x, s1) \<Longrightarrow> honours ctx s1 (f x s1)"
  shows "honours ctx s (andThen m f s)"
proof (cases "m s")
  case None
  then show ?thesis by (simp add: andThen_def honours_def)
next
  case (Some p)
  obtain r s1 where p: "p = (r, s1)" by (cases p)
  show ?thesis
  proof (cases r)
    case Panic
    with Some p assms(1) show ?thesis by (simp add: andThen_def honours_def)
  next
    case (Err e)
    with Some p assms(1) show ?thesis by (simp add: andThen_def honours_def)
  next
    case (Ok x)
    with Some p have ms: "m s = Some (Ok x, s1)" by simp
    from assms(1) ms have a: "clock s \<le> clock s1" "reads_clear ctx (clock s) (clock s1)"
      by (simp_all add: honours_def)
    have b: "honours ctx s1 (f x s1)" using ms by (rule assms(2))
    have "honours ctx s (f x s1)"
      using a b
      by (auto simp: honours_def reads_clear_def split: option.splits outcome.splits prod.splits)
    then show ?thesis using ms by (simp add: andThen_def)
  qed
qed


lemma quiet_return: "quiet s (return x s)"
  by (simp add: quiet_def return_def)

lemma quiet_panic: "quiet s (panic s)"
  by (simp add: quiet_def panic_def)

lemma quiet_new: "quiet s (new ob s)"
  by (simp add: quiet_def new_def)

lemma quiet_newError: "quiet s (newError m s)"
  by (simp add: newError_def quiet_new)

lemma quiet_Set: "quiet s (Set env name val s)"
  by (simp add: quiet_def Set_def)

lemma quiet_NewEnclosedEnvironment: "quiet s (NewEnclosedEnvironment out s)"
  by (simp add: quiet_def NewEnclosedEnvironment_def)

lemma quiet_TypeOf: "quiet s (TypeOf ob s)"
  by (simp add: TypeOf_def quiet_return quiet_panic split: option.split)

lemma quiet_IntegerValue: "quiet s (IntegerValue ob s)"
  by (simp add: IntegerValue_def quiet_return quiet_panic split: option.split obj.split)

lemma quiet_StringValue: "quiet s (StringValue ob s)"
  by (simp add: StringValue_def quiet_return quiet_panic split: option.split obj.split)

lemma quiet_ArrayElements: "quiet s (ArrayElements ob s)"
  by (simp add: ArrayElements_def quiet_return quiet_panic split: option.split obj.split)

lemma quiet_HashPairs: "quiet s (HashPairs ob s)"
  by (simp add: HashPairs_def quiet_return quiet_panic split: option.split obj.split)

lemma quiet_HashKeyOf: "quiet s (HashKeyOf D ob s)"
  by (simp add: HashKeyOf_def quiet_return quiet_panic split: option.split)

lemmas quiet_intros = quiet_andThen quiet_return quiet_panic quiet_new quiet_newError quiet_Set
  quiet_NewEnclosedEnvironment quiet_TypeOf quiet_IntegerValue quiet_StringValue
  quiet_ArrayElements quiet_HashPairs quiet_HashKeyOf

lemma quiet_bothOfType: "quiet s (bothOfType t l r s)"
  unfolding bothOfType_def by (intro quiet_intros) (simp add: quiet_intros)

lemma quiet_evalIntegerInfixExpression: "quiet s (evalIntegerInfixExpression D operator l r s)"
  unfolding evalIntegerInfixExpression_def
  by (intro quiet_intros) (simp add: quiet_intros)

lemma quiet_evalStringInfixExpression: "quiet s (evalStringInfixExpression D operator l r s)"
  unfolding evalStringInfixExpression_def
  by (simp add: quiet_intros)

lemma quiet_evalInfixExpression: "quiet s (evalInfixExpression D operator l r s)"
  unfolding evalInfixExpression_def
  by (intro quiet_intros quiet_bothOfType)
     (simp add: quiet_intros quiet_bothOfType quiet_evalIntegerInfixExpression
        quiet_evalStringInfixExpression)

lemma quiet_evalPrefixExpression: "quiet s (evalPrefixExpression D operator r s)"
  unfolding evalPrefixExpression_def evalMinusPrefixOperatorExpression_def
  by (simp add: quiet_intros)

lemma quiet_evalArrayIndexExpression: "quiet s (evalArrayIndexExpression a i s)"
  unfolding evalArrayIndexExpression_def
  by (simp add: quiet_intros Let_def)

lemma quiet_evalHashIndexExpression: "quiet s (evalHashIndexExpression D a i s)"
  unfolding evalHashIndexExpression_def
proof (intro quiet_andThen quiet_HashPairs)
  fix pairs s1
  have "quiet s1 (andThen (TypeOf i) (\<lambda>it.
          newError (''unusable as hash key: '' @ type_name D it)) s1)"
    by (intro quiet_intros)
  moreover have "quiet s1 (andThen (HashKeyOf D i) (\<lambda>key.
           case pairs key of
             None \<Rightarrow> return (Some NULL)
           | Some pair \<Rightarrow> return (snd pair)) s1)"
    by (intro quiet_andThen quiet_HashKeyOf) (simp add: quiet_return split: option.split)
  ultimately show "quiet s1
     (if \<not> isHashable s1 i then
         andThen (TypeOf i) (\<lambda>it.
           newError (''unusable as hash key: '' @ type_name D it)) s1
       else
         andThen (HashKeyOf D i) (\<lambda>key.
           case pairs key of
             None \<Rightarrow> return (Some NULL)
           | Some pair \<Rightarrow> return (snd pair)) s1)"
    by simp
qed

lemma quiet_evalIndexExpression: "quiet s (evalIndexExpression D a i s)"
  unfolding evalIndexExpression_def
  by (simp add: quiet_intros quiet_evalHashIndexExpression quiet_evalArrayIndexExpression)

lemma quiet_evalIdentifier: "quiet s (evalIdentifier D name env s)"
  unfolding evalIdentifier_def
  by (simp add: quiet_intros split: option.split)

lemma quiet_bindParameters: "quiet s (bindParameters env args params k s)"
  by (induction params arbitrary: k s) (simp_all add: quiet_intros)

lemma quiet_extendFunctionEnv: "quiet s (extendFunctionEnv params fnEnv args s)"
  unfolding extendFunctionEnv_def
  by (simp add: quiet_intros quiet_bindParameters)


lemma honours_evalProgramLoop:
  assumes ev: "\<And>node env s. honours ctx s (ev node env s)"
  shows "honours ctx s (evalProgramLoop ev env stmts result s)"
proof (induction stmts arbitrary: result s)
  case Nil
  show ?case by (simp add: quiet_honours quiet_return)
next
  case (Cons st stmts)
  show ?case
    unfolding evalProgramLoop.simps
    by (rule honours_andThen [OF ev])
       (simp add: Cons.IH quiet_honours quiet_return split: option.split obj.split)
qed

lemma honours_evalBlockLoop:
  assumes ev: "\<And>node env s. honours ctx s (ev node env s)"
  shows "honours ctx s (evalBlockLoop ev env stmts result s)"
proof (induction stmts arbitrary: result s)
  case Nil
  show ?case by (simp add: quiet_honours quiet_return)
next
  case (Cons st stmts)
  show ?case
    unfolding evalBlockLoop.simps
    by (rule honours_andThen [OF ev])
       (simp add: Cons.IH quiet_honours quiet_return Let_def split: option.split)
qed

lemma honours_evalExpressionsLoop:
  assumes ev: "\<And>node env s. honours ctx s (ev node env s)"
  shows "honours ctx s (evalExpressionsLoop ev env exps result s)"
proof (induction exps arbitrary: result s)
  case Nil
  show ?case by (simp add: quiet_honours quiet_return)
next
  case (Cons e exps)
  show ?case
    unfolding evalExpressionsLoop.simps
    by (rule honours_andThen [OF ev])
       (simp add: Cons.IH quiet_honours quiet_return)
qed

lemma honours_evalHashLiteralLoop:
  assumes ev: "\<And>node env s. honours ctx s (ev node env s)"
  shows "honours ctx s (evalHashLiteralLoop D ev env kvs pairs s)"
proof (induction kvs arbitrary: pairs s)
  case Nil
  show ?case by (simp add: quiet_honours quiet_new)
next
  case (Cons kv kvs)
  show ?case
    unfolding evalHashLiteralLoop.simps
  proof (rule honours_andThen [OF ev])
    fix key s1
    show "honours ctx s1
           (if isError s1 key then return key s1
            else if \<not> isHashable s1 key then
              andThen (TypeOf key) (\<lambda>kt.
                newError (''unusable as hash key: '' @ type_name D kt)) s1
            else
              andThen (ev (Expr (snd kv)) env) (\<lambda>value s'.
                if isError s' value then return value s'
                else andThen (HashKeyOf D key) (\<lambda>hashed.
                       evalHashLiteralLoop D ev env kvs (pairs(hashed \<mapsto> (key, value)))) s') s1)"
    proof (cases "isError s1 key")
      case True
      then show ?thesis by (simp add: quiet_honours quiet_return)
    next
      case ne: False
      show ?thesis
      proof (cases "isHashable s1 key")
        case False
        have "quiet s1 (andThen (TypeOf key) (\<lambda>kt.
                newError (''unusable as hash key: '' @ type_name D kt)) s1)"
          by (intro quiet_intros)
        with ne False show ?thesis by (simp add: quiet_honours)
      next
        case True
        have "honours ctx s1
               (andThen (ev (Expr (snd kv)) env) (\<lambda>value s'.
                  if isError s' value then return value s'
                  else andThen (HashKeyOf D key) (\<lambda>hashed.
                         evalHashLiteralLoop D ev env kvs (pairs(hashed \<mapsto> (key, value)))) s') s1)"
        proof (rule honours_andThen [OF ev])
          fix val s2
          show "honours ctx s2
                 (if isError s2 val then return val s2
                  else andThen (HashKeyOf D key) (\<lambda>hashed.
                         evalHashLiteralLoop D ev env kvs (pairs(hashed \<mapsto> (key, val)))) s2)"
            by (simp add: quiet_honours quiet_return)
               (intro impI honours_andThen quiet_honours quiet_HashKeyOf Cons.IH)
        qed
        with ne True show ?thesis by simp
      qed
    qed
  qed
qed

lemma honours_evalIfExpression:
  assumes ev: "\<And>node env s. honours ctx s (ev node env s)"
  shows "honours ctx s (evalIfExpression ev c cons alt env s)"
  unfolding evalIfExpression_def
  by (rule honours_andThen [OF ev])
     (simp add: ev quiet_honours quiet_return split: option.split)

lemma honours_applyFunction:
  assumes ev: "\<And>node env s. honours ctx s (ev node env s)"
  shows "honours ctx s (applyFunction D ev fn args s)"
proof (cases fn)
  case None
  then show ?thesis by (simp add: applyFunction_def quiet_honours quiet_panic)
next
  case (Some f)
  show ?thesis
  proof (cases "deref s f")
    case (Function ps body fnEnv)
    have "honours ctx s
            (andThen (extendFunctionEnv ps fnEnv args) (\<lambda>extendedEnv.
             andThen (ev (Stmt (BlockStatement body)) extendedEnv) (\<lambda>evaluated s'.
               return (unwrapReturnValue s' evaluated) s')) s)"
      by (intro honours_andThen quiet_honours quiet_extendFunctionEnv ev quiet_return)
    with Some Function show ?thesis by (simp add: applyFunction_def)
  next
    case (Builtin name)
    have "quiet s (applyFunction D ev (Some f) args s)"
      using Builtin
      by (simp add: applyFunction_def quiet_panic split: option.split)
         (simp add: quiet_def return_def)
    with Some show ?thesis by (simp add: quiet_honours)
  qed (simp_all add: Some applyFunction_def quiet_honours quiet_newError)
qed

lemma honours_dispatch:
  assumes ev: "\<And>node env s. honours ctx s (ev node env s)"
  shows "honours ctx s (dispatch D ev node env s)"
proof (cases node)
  case (Program stmts)
  then show ?thesis by (simp add: evalProgram_def honours_evalProgramLoop [OF ev])
next
  case (Stmt st)
  show ?thesis
  proof (cases st)
    case (LetStatement name v)
    have "honours ctx s (dispatch D ev (Stmt (LetStatement name v)) env s)"
      unfolding dispatch.simps
      by (rule honours_andThen [OF ev])
         (simp add: quiet_honours quiet_intros)
    with Stmt LetStatement show ?thesis by simp
  next
    case (ReturnStatement v)
    have "honours ctx s (dispatch D ev (Stmt (ReturnStatement v)) env s)"
      unfolding dispatch.simps
      by (rule honours_andThen [OF ev])
         (simp add: quiet_honours quiet_intros)
    with Stmt ReturnStatement show ?thesis by simp
  next
    case (ExpressionStatement e)
    with Stmt show ?thesis by (simp add: ev)
  next
    case (BlockStatement b)
    with Stmt show ?thesis by (simp add: evalBlockStatement_def honours_evalBlockLoop [OF ev])
  qed
next
  case (Expr e)
  show ?thesis
  proof (cases e)
    case (ArrayLiteral es)
    have "honours ctx s (dispatch D ev (Expr (ArrayLiteral es)) env s)"
      unfolding dispatch.simps evalExpressions_def
      by (rule honours_andThen [OF honours_evalExpressionsLoop [OF ev]])
         (simp add: quiet_honours quiet_intros del: One_nat_def)
    with Expr ArrayLiteral show ?thesis by simp
  next
    case (IndexExpression l i)
    have "honours ctx s (dispatch D ev (Expr (IndexExpression l i)) env s)"
      unfolding dispatch.simps
      apply (rule honours_andThen [OF ev])
      apply (simp add: quiet_honours quiet_intros)
      apply (intro impI honours_andThen [OF ev])
      apply (simp add: quiet_honours quiet_intros quiet_evalIndexExpression)
      done
    with Expr IndexExpression show ?thesis by simp
  next
    case (PrefixExpression operator r)
    have "honours ctx s (dispatch D ev (Expr (PrefixExpression operator r)) env s)"
      unfolding dispatch.simps
      by (rule honours_andThen [OF ev])
         (simp add: quiet_honours quiet_intros quiet_evalPrefixExpression)
    with Expr PrefixExpression show ?thesis by simp
  next
    case (InfixExpression l operator r)
    have "honours ctx s (dispatch D ev (Expr (InfixExpression l operator r)) env s)"
      unfolding dispatch.simps
      apply (rule honours_andThen [OF ev])
      apply (simp add: quiet_honours quiet_intros)
      apply (intro impI honours_andThen [OF ev])
      apply (simp add: quiet_honours quiet_intros quiet_evalInfixExpression)
      done
    with Expr InfixExpression show ?thesis by simp
  next
    case (CallExpression f as)
    have "honours ctx s (dispatch D ev (Expr (CallExpression f as)) env s)"
      unfolding dispatch.simps evalExpressions_def
      apply (rule honours_andThen [OF ev])
      apply (simp add: quiet_honours quiet_intros del: One_nat_def)
      apply (intro impI honours_andThen [OF honours_evalExpressionsLoop [OF ev]])
      apply (simp add: quiet_honours quiet_intros honours_applyFunction [OF ev] del: One_nat_def)
      done
    with Expr CallExpression show ?thesis by simp
  qed (simp_all add: Expr quiet_honours quiet_intros quiet_evalIdentifier
        evalHashLiteral_def honours_evalHashLiteralLoop [OF ev] honours_evalIfExpression [OF ev])
qed

lemma reads_clear_Suc: "ctx i = None \<Longrightarrow> reads_clear ctx (Suc i) j \<Longrightarrow> reads_clear ctx i j"
  unfolding reads_clear_def
proof
  fix t
  assume a: "ctx i = None" and b: "\<forall>t\<in>{Suc i..<j}. ctx t = None" and t: "t \<in> {i..<j}"
  show "ctx t = None"
  proof (cases "t = i")
    case True
    with a show ?thesis by simp
  next
    case False
    with t have "t \<in> {Suc i..<j}" by auto
    with b show ?thesis by blast
  qed
qed

lemma honours_tick:
  assumes "ctx (clock s) = None" and "honours ctx (s\<lparr>clock := Suc (clock s)\<rparr>) x"
  shows "honours ctx s x"
  using assms
  by (auto simp: honours_def reads_clear_Suc split: option.splits outcome.splits prod.splits)

lemma honours_Eval: "honours ctx s (Eval n D ctx node env s)"
proof (induction n arbitrary: node env s)
  case 0
  show ?case by (simp add: honours_def)
next
  case (Suc n)
  show ?case
  proof (cases "ctx (clock s)")
    case (Some e)
    then show ?thesis
      by (simp add: Eval_Suc_cancelled honours_def reads_clear_def)
  next
    case None
    have "honours ctx (s\<lparr>clock := Suc (clock s)\<rparr>)
            (dispatch D (Eval n D ctx) node env (s\<lparr>clock := Suc (clock s)\<rparr>))"
      by (rule honours_dispatch) (rule Suc.IH)
    with None show ?thesis
      by (simp add: Eval_Suc_not_cancelled honours_tick)
  qed
qed

text \<open>
  C5.  For every node and environment: when the cancellation signal is set at the moment
  \<open>Eval\<close> is entered, \<open>Eval\<close> returns that \<open>error\<close> and nothing else happens (no object is
  allocated, no binding changes).  Cancellation is never turned into a value at any
  recursive step: a run that ends with a result (an \<open>Error\<close> object included) has seen the
  signal clear at every read, and a run that ends with an \<open>error\<close> returns exactly what
  its last read of the signal saw, all earlier reads having been clear.
\<close>

theorem cancellation:
  "(ctx (clock s) = Some e \<longrightarrow>
      Eval (Suc n) D ctx node env s = Some (Err e, s\<lparr>clock := Suc (clock s)\<rparr>)) \<and>
   (Eval n D ctx node env s = Some (Ok v, s') \<longrightarrow> (\<forall>t\<in>{clock s..<clock s'}. ctx t = None)) \<and>
   (Eval n D ctx node env s = Some (Err e', s') \<longrightarrow>
      clock s < clock s' \<and> ctx (clock s' - 1) = Some e' \<and>
      (\<forall>t\<in>{clock s..<clock s' - 1}. ctx t = None))"
proof -
  have h: "honours ctx s (Eval n D ctx node env s)"
    by (rule honours_Eval)
  have a: "Eval n D ctx node env s = Some (Ok v, s') \<longrightarrow> (\<forall>t\<in>{clock s..<clock s'}. ctx t = None)"
    using h by (auto simp: honours_def reads_clear_def)
  have b: "Eval n D ctx node env s = Some (Err e', s') \<longrightarrow>
      clock s < clock s' \<and> ctx (clock s' - 1) = Some e' \<and>
      (\<forall>t\<in>{clock s..<clock s' - 1}. ctx t = None)"
    using h by (auto simp: honours_def reads_clear_def)
  from a b show ?thesis
    by (simp add: Eval_Suc_cancelled)
qed

theorem cancellation_witness:
  "Eval 1 D0 (\<lambda>k. Some Canceled) (Program []) env0 s0 =
     Some (Err Canceled, \<lparr>objs = [], frames = [Map.empty], clock = 1\<rparr>) \<and>
   Eval 2 D0 (\<lambda>k. if k = 2 then Some DeadlineExceeded else None)
     (Expr (InfixExpression (IntegerLiteral 1) ''+'' (IntegerLiteral 2))) env0 s0 =
     Some (Err DeadlineExceeded, \<lparr>objs = [Integer 1], frames = [Map.empty], clock = 3\<rparr>)"
proof -
  have a: "Eval 1 D0 (\<lambda>k. Some Canceled) (Program []) env0 s0 =
     Some (Err Canceled, \<lparr>objs = [], frames = [Map.empty], clock = 1\<rparr>)"
    using cancellation [of "\<lambda>k. Some Canceled" s0 Canceled 0 D0 "Program []" env0]
    by (simp add: s0_def)
  have l: "Eval 1 D0 (\<lambda>k. if k = 2 then Some DeadlineExceeded else None)
             (Expr (IntegerLiteral 1)) env0 \<lparr>objs = [], frames = [Map.empty], clock = 1\<rparr> =
           Some (Ok (Some (Addr 0)), \<lparr>objs = [Integer 1], frames = [Map.empty], clock = 2\<rparr>)"
    by (simp add: Eval_IntegerLiteral)
  have r: "Eval 1 D0 (\<lambda>k. if k = 2 then Some DeadlineExceeded else None)
             (Expr (IntegerLiteral 2)) env0 \<lparr>objs = [Integer 1], frames = [Map.empty], clock = 2\<rparr> =
           Some (Err DeadlineExceeded, \<lparr>objs = [Integer 1], frames = [Map.empty], clock = 3\<rparr>)"
    using cancellation [of "\<lambda>k. if k = 2 then Some DeadlineExceeded else None"
        "\<lparr>objs = [Integer 1], frames = [Map.empty], clock = 2\<rparr>" DeadlineExceeded 0 D0
        "Expr (IntegerLiteral 2)" env0]
    by simp
  have b: "Eval 2 D0 (\<lambda>k. if k = 2 then Some DeadlineExceeded else None)
     (Expr (InfixExpression (IntegerLiteral 1) ''+'' (IntegerLiteral 2))) env0 s0 =
     Some (Err DeadlineExceeded, \<lparr>objs = [Integer 1], frames = [Map.empty], clock = 3\<rparr>)"
    using l r
    by (simp add: eval_nat_numeral Eval_Suc_not_cancelled s0_def andThen_def isError_def)
  from a b show ?thesis by simp
qed

section \<open>Concrete runs\<close>

lemmas run_defs = eval_nat_numeral s0_def env0_def never_def D0_def Eval.simps(2) EvalBody_def
  andThen_def ctxErr_def evalProgram_def evalBlockStatement_def evalExpressions_def
  applyFunction_def extendFunctionEnv_def NewEnclosedEnvironment_def Set_def new_def
  newError_def return_def isError_def evalIdentifier_def Sprintf_def evalInfixExpression_def
  bothOfType_def TypeOf_def evalIntegerInfixExpression_def IntegerValue_def
  evalIfExpression_def evalStringInfixExpression_def StringValue_def
  nativeBoolToBooleanObject_def panic_def fail_def nth_append

section \<open>Hash keys of the sample declarations\<close>

text \<open>
  The hash key of \<open>D0\<close> tells any two hashable objects apart, so only a key equal to the one
  stored finds a pair.
\<close>

lemma string_code_inj: "string_code xs = string_code ys \<Longrightarrow> xs = ys"
proof (induction xs arbitrary: ys)
  case Nil
  then show ?case by (cases ys) simp_all
next
  case (Cons x xs)
  then obtain y ys' where ys: "ys = y # ys'" by (cases ys) auto
  have b: "(of_char x :: nat) < 256" "(of_char y :: nat) < 256" by (simp_all add: of_char_def)
  from Cons.prems ys have e: "of_char x + 256 * string_code xs = of_char y + 256 * string_code ys'"
    by simp
  from e b have "(of_char x :: nat) = of_char y"
    by (metis add.commute mod_less mod_mult_self2)
  moreover with e have "string_code xs = string_code ys'" by simp
  ultimately show ?case using Cons.IH ys by simp
qed

lemma sample_hash_key_inj:
  assumes "Hashable a" and "Hashable b" and "sample_hash_key a = sample_hash_key b"
  shows "a = b"
proof (cases a)
  case (Integer v)
  show ?thesis
  proof (cases b)
    case (Integer w)
    with \<open>a = Integer v\<close> assms(3) show ?thesis by (simp add: word_unat_eq_iff)
  next
    case (Boolean q)
    with \<open>a = Integer v\<close> assms(3) show ?thesis by (simp split: if_splits) presburger+
  next
    case (String w)
    with \<open>a = Integer v\<close> assms(3) show ?thesis by simp presburger
  qed (use assms(2) in simp_all)
next
  case (Boolean p)
  show ?thesis
  proof (cases b)
    case (Integer w)
    with Boolean assms(3) show ?thesis by (simp split: if_splits) presburger+
  next
    case (Boolean q)
    with \<open>a = Boolean p\<close> assms(3) show ?thesis by (simp split: if_splits)
  next
    case (String w)
    with Boolean assms(3) show ?thesis by (simp split: if_splits) presburger+
  qed (use assms(2) in simp_all)
next
  case (String v)
  show ?thesis
  proof (cases b)
    case (Integer w)
    with String assms(3) show ?thesis by simp presburger
  next
    case (Boolean q)
    with String assms(3) show ?thesis by (simp split: if_splits) presburger+
  next
    case (String w)
    with \<open>a = String v\<close> assms(3) show ?thesis by (simp add: string_code_inj)
  qed (use assms(2) in simp_all)
qed (use assms(1) in simp_all)

text \<open>
  The examples of the specification: \<open>{"a": 1}["a"]\<close> is 1, \<open>{"a": 1}["b"]\<close> is \<open>NULL\<close>, and
  a function as the index is an \<open>Error\<close> object.
\<close>

lemma hash_examples:
  "(\<exists>s'. Eval 3 D0 never
      (Expr (IndexExpression (HashLiteral [(StringLiteral ''a'', IntegerLiteral 1)]) (StringLiteral ''a'')))
      env0 s0 = Some (Ok (Some (Addr 1)), s') \<and> deref s' (Addr 1) = Integer 1) \<and>
   (\<exists>s'. Eval 3 D0 never
      (Expr (IndexExpression (HashLiteral [(StringLiteral ''a'', IntegerLiteral 1)]) (StringLiteral ''b'')))
      env0 s0 = Some (Ok (Some NULL), s')) \<and>
   (\<exists>s'. Eval 3 D0 never
      (Expr (IndexExpression (HashLiteral [(StringLiteral ''a'', IntegerLiteral 1)])
         (FunctionLiteral [] [])))
      env0 s0 = Some (Ok (Some (Addr 4)), s') \<and>
      deref s' (Addr 4) = Error ''unusable as hash key: FUNCTION'')"
  by (simp add: run_defs evalHashLiteral_def evalIndexExpression_def evalHashIndexExpression_def
      HashPairs_def isHashable_def HashKeyOf_def evalArrayIndexExpression_def ArrayElements_def)

section \<open>Let statements and conditionals\<close>

lemma Eval_LetStatement:
  assumes "ctx (clock s) = None"
    and "Eval n D ctx (Expr value) env (s\<lparr>clock := Suc (clock s)\<rparr>) = Some (Ok val, s1)"
  shows "Eval (Suc n) D ctx (Stmt (LetStatement name value)) env s =
           (if isError s1 val then Some (Ok val, s1)
            else Some (Ok None,
                   s1\<lparr>frames := (frames s1)[store env := (frames s1 ! store env)(name \<mapsto> val)]\<rparr>))"
  using assms by (simp add: Eval_Suc_not_cancelled andThen_def Set_def return_def)

lemma Get_after_Set:
  assumes "store env < length (frames s)"
  shows "Get (s\<lparr>frames := (frames s)[store env := (frames s ! store env)(name \<mapsto> val)]\<rparr>) env name = Some val"
  using assms by (cases env; cases "outer env") auto
lemma isTruthy_iff: "isTruthy c \<longleftrightarrow> c \<noteq> Some NULL \<and> c \<noteq> Some FALSE"
  by (cases c rule: isTruthy.cases) simp_all

section \<open>Infix operators\<close>

lemma evalInfix_identity:
  assumes "\<not> (Type (deref s l) = INTEGER_OBJ \<and> Type (deref s r) = INTEGER_OBJ)"
  shows "evalInfixExpression D ''=='' (Some l) (Some r) s =
           Some (Ok (Some (nativeBoolToBooleanObject (l = r))), s)"
    and "evalInfixExpression D ''!='' (Some l) (Some r) s =
           Some (Ok (Some (nativeBoolToBooleanObject (l \<noteq> r))), s)"
  using assms
  by (auto simp: evalInfixExpression_def andThen_def bothOfType_Some return_def)

lemma evalInfix_mismatch:
  assumes "Type (deref s l) \<noteq> Type (deref s r)" and "operator \<noteq> ''==''" and "operator \<noteq> ''!=''"
  shows "evalInfixExpression D operator (Some l) (Some r) s =
           newError (''type mismatch: '' @ type_name D (Type (deref s l)) @ '' '' @ operator
                       @ '' '' @ type_name D (Type (deref s r))) s"
  using assms
  by (auto simp: evalInfixExpression_def andThen_def bothOfType_Some TypeOf_Some return_def)

lemma evalInfix_unknown:
  assumes "Type (deref s l) = Type (deref s r)" and "operator \<notin> supported (Type (deref s l))"
  shows "evalInfixExpression D operator (Some l) (Some r) s =
           newError (''unknown operator: '' @ type_name D (Type (deref s l)) @ '' '' @ operator
                       @ '' '' @ type_name D (Type (deref s r))) s"
proof (cases "Type (deref s l) = INTEGER_OBJ")
  case True
  then obtain a where a: "deref s l = Integer a" by (cases "deref s l") auto
  from True assms(1) obtain b where b: "deref s r = Integer b" by (cases "deref s r") auto
  show ?thesis
    using assms(2) a b
    by (simp add: evalInfix_Integer [OF a b] evalIntegerInfixExpression_def andThen_def
        IntegerValue_Integer TypeOf_Some supported_def)
next
  case False
  note ni = this
  show ?thesis
  proof (cases "Type (deref s l) = STRING_OBJ")
    case True
    with assms show ?thesis
      by (simp add: evalInfixExpression_def andThen_def bothOfType_Some TypeOf_Some return_def
          evalStringInfixExpression_def supported_def)
  next
    case False
    with ni assms show ?thesis
      by (simp add: evalInfixExpression_def andThen_def bothOfType_Some TypeOf_Some return_def
          supported_def)
  qed
qed

section \<open>Calling a closure\<close>

lemma bindParameters_eq:
  "k + length params \<le> length args \<Longrightarrow>
   bindParameters env args params k s =
     Some (Ok (), s\<lparr>frames := (frames s)[store env := (frames s ! store env)(params [\<mapsto>] drop k args)]\<rparr>)"
proof (induction params arbitrary: k s)
  case Nil
  show ?case by (simp add: return_def)
next
  case (Cons p ps)
  then have k: "k < length args" and k': "Suc k + length ps \<le> length args" by simp_all
  have d: "drop k args = args ! k # drop (Suc k) args"
    using k by (simp add: Cons_nth_drop_Suc)
  show ?case
  proof (cases "store env < length (frames s)")
    case True
    then show ?thesis
      using k by (simp add: andThen_def Set_def Cons.IH [OF k'] d)
  next
    case False
    then show ?thesis
      using k by (simp add: andThen_def Set_def Cons.IH [OF k'] d list_update_beyond)
  qed
qed

lemma bindParameters_panic:
  "k \<le> length args \<Longrightarrow> length args < k + length params \<Longrightarrow>
   \<exists>s'. bindParameters env args params k s = Some (Panic, s')"
proof (induction params arbitrary: k s)
  case Nil
  then show ?case by simp
next
  case (Cons p ps)
  show ?case
  proof (cases "k < length args")
    case True
    with Cons.prems have "Suc k \<le> length args" "length args < Suc k + length ps" by simp_all
    from Cons.IH [OF this] True show ?thesis
      by (simp add: andThen_def Set_def)
  next
    case False
    then show ?thesis by (simp add: panic_def)
  qed
qed

lemma extendFunctionEnv_eq:
  assumes "length params \<le> length args"
  shows "extendFunctionEnv params fnEnv args s =
     Some (Ok (Environment (length (frames s)) (Some fnEnv)),
           s\<lparr>frames := frames s @ [Map.empty(params [\<mapsto>] args)]\<rparr>)"
  using assms
  by (simp add: extendFunctionEnv_def andThen_def NewEnclosedEnvironment_def bindParameters_eq
      return_def)

lemma applyFunction_closure:
  assumes "deref s f = Function params body fnEnv" and "length params \<le> length args"
  shows "applyFunction D ev (Some f) args s =
           andThen (ev (Stmt (BlockStatement body)) (Environment (length (frames s)) (Some fnEnv)))
             (\<lambda>evaluated s'. return (unwrapReturnValue s' evaluated) s')
             (s\<lparr>frames := frames s @ [Map.empty(params [\<mapsto>] args)]\<rparr>)"
  using assms
  by (simp add: applyFunction_def andThen_def extendFunctionEnv_eq)

lemma applyFunction_too_few:
  assumes "deref s f = Function params body fnEnv" and "length args < length params"
  shows "\<exists>s'. applyFunction D ev (Some f) args s = Some (Panic, s')"
proof -
  obtain s' where "bindParameters (Environment (length (frames s)) (Some fnEnv)) args params 0
      (s\<lparr>frames := frames s @ [Map.empty]\<rparr>) = Some (Panic, s')"
    using bindParameters_panic [where k = 0 and args = args and params = params] assms(2) by auto
  then show ?thesis
    using assms(1)
    by (simp add: applyFunction_def andThen_def extendFunctionEnv_def NewEnclosedEnvironment_def)
qed

lemma zip_take_left: "zip xs (take (length xs) ys) = zip xs ys"
  by (induction xs arbitrary: ys) (simp, case_tac ys, simp_all)

lemma map_upds_take: "m(xs [\<mapsto>] take (length xs) ys) = m(xs [\<mapsto>] ys)"
  by (simp add: map_upds_def zip_take_left)

section \<open>Statement sequences\<close>

lemma evalBlockLoop_step:
  "evalBlockLoop ev env (st # rest) acc s =
     (case ev (Stmt st) env s of
        None \<Rightarrow> None
      | Some (Panic, s1) \<Rightarrow> Some (Panic, s1)
      | Some (Err e, s1) \<Rightarrow> Some (Err e, s1)
      | Some (Ok r, s1) \<Rightarrow> if stops s1 r then Some (Ok r, s1) else evalBlockLoop ev env rest r s1)"
  by (simp add: andThen_def stops_def return_def Let_def split: option.split outcome.split)

lemma evalProgramLoop_step:
  "evalProgramLoop ev env (st # rest) acc s =
     (case ev (Stmt st) env s of
        None \<Rightarrow> None
      | Some (Panic, s1) \<Rightarrow> Some (Panic, s1)
      | Some (Err e, s1) \<Rightarrow> Some (Err e, s1)
      | Some (Ok r, s1) \<Rightarrow>
          if stops s1 r then Some (Ok (unwrapReturnValue s1 r), s1)
          else evalProgramLoop ev env rest r s1)"
  by (auto simp: andThen_def stops_def return_def split: option.split outcome.split obj.split)

lemma unwrapReturnValue_passes: "\<not> stops s r \<Longrightarrow> unwrapReturnValue s r = r"
  by (cases r) (auto simp: stops_def split: obj.split)

lemma split_at_Cons:
  "(\<exists>pre x post. st # rest = pre @ x # post \<and> P pre x post) \<longleftrightarrow>
     P [] st rest \<or> (\<exists>pre x post. rest = pre @ x # post \<and> P (st # pre) x post)"
  by (auto simp: Cons_eq_append_conv)

lemma evalBlockLoop_iff:
  "evalBlockLoop ev env stmts acc s = Some (Ok r, s') \<longleftrightarrow>
     (stmts = [] \<and> r = acc \<and> s' = s) \<or>
     (\<exists>pre st post. stmts = pre @ st # post \<and>
        (\<exists>s1. passes ev env pre s = Some s1 \<and>
           ev (Stmt st) env s1 = Some (Ok r, s') \<and> (stops s' r \<or> post = [])))"
proof (induction stmts arbitrary: acc s)
  case Nil
  show ?case by (auto simp: return_def)
next
  case (Cons st rest)
  show ?case
    unfolding evalBlockLoop_step split_at_Cons
    by (auto simp: Cons.IH split: option.splits outcome.splits)
qed

lemma evalProgramLoop_iff:
  "evalProgramLoop ev env stmts acc s = Some (Ok r, s') \<longleftrightarrow>
     (stmts = [] \<and> r = acc \<and> s' = s) \<or>
     (\<exists>pre st post. stmts = pre @ st # post \<and>
        (\<exists>s1 r0. passes ev env pre s = Some s1 \<and>
           ev (Stmt st) env s1 = Some (Ok r0, s') \<and> (stops s' r0 \<or> post = []) \<and>
           r = unwrapReturnValue s' r0))"
proof (induction stmts arbitrary: acc s)
  case Nil
  show ?case by (auto simp: return_def)
next
  case (Cons st rest)
  show ?case
    unfolding evalProgramLoop_step split_at_Cons
    by (auto simp: Cons.IH unwrapReturnValue_passes split: option.splits outcome.splits)
qed

section \<open>Closures and calls\<close>

text \<open>
  C1 as the code has it.  Evaluating a function literal (while the run is not cancelled) allocates one
  \<open>Function\<close> object that holds the parameters, the body and the current environment
  itself; nothing else changes, whatever the body is: the body is not evaluated.  Calling
  a closure with at least as many arguments as it has parameters evaluates the body in an
  environment whose frame is new and whose enclosing environment is the captured one, and
  unwraps a \<open>ReturnValue\<close>.  So the closure finds the names of its defining scope after the
  defining call has returned: the program of the specification evaluates to the integer 5
  for every table of built-ins; and a name bound in the captured environment after the
  closure was made is found as well.
\<close>

theorem closure_capture:
  "(ctx (clock s) = None \<longrightarrow>
      Eval (Suc n) D ctx (Expr (FunctionLiteral params body)) env s =
        Some (Ok (Some (Addr (length (objs s)))),
              s\<lparr>clock := Suc (clock s), objs := objs s @ [Function params body env]\<rparr>)) \<and>
   (deref s f = Function params body fnEnv \<and> length params \<le> length args \<longrightarrow>
      applyFunction D ev (Some f) args s =
        andThen (ev (Stmt (BlockStatement body)) (Environment (length (frames s)) (Some fnEnv)))
          (\<lambda>evaluated s'. return (unwrapReturnValue s' evaluated) s')
          (s\<lparr>frames := frames s @ [Map.empty(params [\<mapsto>] args)]\<rparr>)) \<and>
   (\<exists>s'. Eval 7 D never closure_program env0 s0 = Some (Ok (Some (Addr 4)), s') \<and>
         deref s' (Addr 4) = Integer 5) \<and>
   (\<exists>s'. Eval 6 D never late_binding_program env0 s0 = Some (Ok (Some (Addr 1)), s') \<and>
         deref s' (Addr 1) = Integer 7)"
proof (intro conjI impI)
  assume "ctx (clock s) = None"
  then show "Eval (Suc n) D ctx (Expr (FunctionLiteral params body)) env s =
        Some (Ok (Some (Addr (length (objs s)))),
              s\<lparr>clock := Suc (clock s), objs := objs s @ [Function params body env]\<rparr>)"
    by (simp add: Eval_Suc_not_cancelled new_def)
next
  assume "deref s f = Function params body fnEnv \<and> length params \<le> length args"
  then show "applyFunction D ev (Some f) args s =
        andThen (ev (Stmt (BlockStatement body)) (Environment (length (frames s)) (Some fnEnv)))
          (\<lambda>evaluated s'. return (unwrapReturnValue s' evaluated) s')
          (s\<lparr>frames := frames s @ [Map.empty(params [\<mapsto>] args)]\<rparr>)"
    by (simp add: applyFunction_closure)
next
  show "\<exists>s'. Eval 7 D never closure_program env0 s0 = Some (Ok (Some (Addr 4)), s') \<and>
         deref s' (Addr 4) = Integer 5"
    by (simp add: run_defs closure_program_def)
next
  show "\<exists>s'. Eval 6 D never late_binding_program env0 s0 = Some (Ok (Some (Addr 1)), s') \<and>
         deref s' (Addr 1) = Integer 7"
    by (simp add: run_defs late_binding_program_def)
qed

theorem closure_capture_witness:
  "Eval 1 D0 never (Expr (FunctionLiteral [''x''] [ExpressionStatement (Identifier ''x'')])) env0 s0 =
     Some (Ok (Some (Addr 0)),
           \<lparr>objs = [Function [''x''] [ExpressionStatement (Identifier ''x'')] env0],
            frames = [Map.empty], clock = 1\<rparr>) \<and>
   applyFunction D0 (Eval 3 D0 never) (Some (Addr 0)) [Some (Addr 1)]
     \<lparr>objs = [Function [''x''] [ExpressionStatement (Identifier ''x'')] env0, Integer 9],
      frames = [Map.empty], clock = 3\<rparr> =
     Some (Ok (Some (Addr 1)),
       \<lparr>objs = [Function [''x''] [ExpressionStatement (Identifier ''x'')] env0, Integer 9],
        frames = [Map.empty, [''x'' \<mapsto> Some (Addr 1)]], clock = 6\<rparr>)"
  using closure_capture [where ctx = never and s = s0 and n = 0 and D = D0 and env = env0
      and params = "[''x'']" and body = "[ExpressionStatement (Identifier ''x'')]"]
    closure_capture [where
      s = "\<lparr>objs = [Function [''x''] [ExpressionStatement (Identifier ''x'')] env0, Integer 9],
            frames = [Map.empty], clock = 3\<rparr>"
      and f = "Addr 0" and D = D0 and ev = "Eval 3 D0 never" and args = "[Some (Addr 1)]"
      and params = "[''x'']" and body = "[ExpressionStatement (Identifier ''x'')]"
      and fnEnv = env0]
  by (simp add: run_defs)

text \<open>
  A call with fewer arguments than parameters: in \<open>let f = fn(a, b) { a }; f(1);\<close> the
  call binds \<open>a\<close> in the new frame, panics at \<open>args[1]\<close> and never evaluates the body.
\<close>

theorem closure_capture_counterexample:
  "Eval 4 D0 never
     (Program [LetStatement ''f'' (FunctionLiteral [''a'', ''b''] [ExpressionStatement (Identifier ''a'')]),
               ExpressionStatement (CallExpression (Identifier ''f'') [IntegerLiteral 1])])
     env0 s0 =
   Some (Panic,
     \<lparr>objs = [Function [''a'', ''b''] [ExpressionStatement (Identifier ''a'')] env0, Integer 1],
      frames = [[''f'' \<mapsto> Some (Addr 0)], [''a'' \<mapsto> Some (Addr 1)]], clock = 7\<rparr>)"
  by (simp add: run_defs)

text \<open>
  C4 as the code has it.  A call of a closure with at least as many arguments as
  parameters is not rejected for its arity: the arguments beyond the parameters are
  ignored (the call is the same as with the leading arguments alone), the parameters are
  bound to the leading arguments in order, in a new frame, and the body is evaluated.
\<close>

theorem call_arity:
  "deref s f = Function params body fnEnv \<and> length params \<le> length args \<longrightarrow>
     applyFunction D ev (Some f) args s =
       applyFunction D ev (Some f) (take (length params) args) s \<and>
     applyFunction D ev (Some f) args s =
       andThen (ev (Stmt (BlockStatement body)) (Environment (length (frames s)) (Some fnEnv)))
         (\<lambda>evaluated s'. return (unwrapReturnValue s' evaluated) s')
         (s\<lparr>frames := frames s @ [Map.empty(params [\<mapsto>] take (length params) args)]\<rparr>)"
proof (intro impI)
  assume a: "deref s f = Function params body fnEnv \<and> length params \<le> length args"
  then have d: "deref s f = Function params body fnEnv" and n: "length params \<le> length args"
    by blast+
  have t: "length params \<le> length (take (length params) args)"
    using n by simp
  have whole: "applyFunction D ev (Some f) args s =
       andThen (ev (Stmt (BlockStatement body)) (Environment (length (frames s)) (Some fnEnv)))
         (\<lambda>evaluated s'. return (unwrapReturnValue s' evaluated) s')
         (s\<lparr>frames := frames s @ [Map.empty(params [\<mapsto>] take (length params) args)]\<rparr>)"
    by (simp add: applyFunction_closure [OF d n] map_upds_take)
  have leading: "applyFunction D ev (Some f) (take (length params) args) s =
       andThen (ev (Stmt (BlockStatement body)) (Environment (length (frames s)) (Some fnEnv)))
         (\<lambda>evaluated s'. return (unwrapReturnValue s' evaluated) s')
         (s\<lparr>frames := frames s @ [Map.empty(params [\<mapsto>] take (length params) args)]\<rparr>)"
    by (rule applyFunction_closure [OF d t])
  from whole leading
  show "applyFunction D ev (Some f) args s =
       applyFunction D ev (Some f) (take (length params) args) s \<and>
     applyFunction D ev (Some f) args s =
       andThen (ev (Stmt (BlockStatement body)) (Environment (length (frames s)) (Some fnEnv)))
         (\<lambda>evaluated s'. return (unwrapReturnValue s' evaluated) s')
         (s\<lparr>frames := frames s @ [Map.empty(params [\<mapsto>] take (length params) args)]\<rparr>)"
    by simp
qed

theorem call_arity_witness:
  "applyFunction D0 (Eval 3 D0 never) (Some (Addr 0)) [Some (Addr 1), Some (Addr 2)]
     \<lparr>objs = [Function [''x''] [ExpressionStatement (Identifier ''x'')] env0, Integer 1, Integer 2],
      frames = [Map.empty], clock = 4\<rparr> =
   Some (Ok (Some (Addr 1)),
     \<lparr>objs = [Function [''x''] [ExpressionStatement (Identifier ''x'')] env0, Integer 1, Integer 2],
      frames = [Map.empty, [''x'' \<mapsto> Some (Addr 1)]], clock = 7\<rparr>)"
  using call_arity [where
      s = "\<lparr>objs = [Function [''x''] [ExpressionStatement (Identifier ''x'')] env0, Integer 1, Integer 2],
            frames = [Map.empty], clock = 4\<rparr>"
      and f = "Addr 0" and D = D0 and ev = "Eval 3 D0 never"
      and args = "[Some (Addr 1), Some (Addr 2)]"
      and params = "[''x'']" and body = "[ExpressionStatement (Identifier ''x'')]"
      and fnEnv = env0]
  by (simp add: run_defs)

theorem call_arity_counterexample:
  "Eval 3 D0 never
     (Expr (CallExpression (FunctionLiteral [''x''] [ExpressionStatement (IntegerLiteral 1)]) []))
     env0 s0 =
   Some (Panic,
     \<lparr>objs = [Function [''x''] [ExpressionStatement (IntegerLiteral 1)] env0],
      frames = [Map.empty, Map.empty], clock = 2\<rparr>)"
  by (simp add: run_defs)

section \<open>Sequences of statements\<close>

text \<open>
  C2 as the code has it.  The statements of a sequence are evaluated in order, each in the
  state the one before it left.  A sequence returns a result exactly in these cases: it is
  empty (no value, nothing changed), or a first part of it passes (every statement
  returns a result that is neither a \<open>ReturnValue\<close> nor an \<open>Error\<close> object) and the next
  statement returns a result that stops the sequence or is the last statement.  That
  statement's result is the result of a \<open>BlockStatement\<close>; a \<open>Program\<close> returns it with a
  \<open>ReturnValue\<close> unwrapped: the wrapped value in place of the \<open>ReturnValue\<close> object.  The
  statements after the stopping one are not evaluated.
\<close>

theorem statement_sequences:
  "(evalBlockStatement ev stmts env s = Some (Ok r, s') \<longleftrightarrow>
      (stmts = [] \<and> r = None \<and> s' = s) \<or>
      (\<exists>pre st post. stmts = pre @ st # post \<and>
         (\<exists>s1. passes ev env pre s = Some s1 \<and>
            ev (Stmt st) env s1 = Some (Ok r, s') \<and> (stops s' r \<or> post = [])))) \<and>
   (evalProgram ev stmts env s = Some (Ok r, s') \<longleftrightarrow>
      (stmts = [] \<and> r = None \<and> s' = s) \<or>
      (\<exists>pre st post. stmts = pre @ st # post \<and>
         (\<exists>s1 r0. passes ev env pre s = Some s1 \<and>
            ev (Stmt st) env s1 = Some (Ok r0, s') \<and> (stops s' r0 \<or> post = []) \<and>
            r = unwrapReturnValue s' r0)))"
  unfolding evalBlockStatement_def evalProgram_def
  using evalBlockLoop_iff [of ev env stmts None s r s']
    evalProgramLoop_iff [of ev env stmts None s r s']
  by blast

theorem statement_sequences_witness:
  "evalBlockStatement (Eval 2 D0 never)
     [ExpressionStatement (IntegerLiteral 4), ReturnStatement (IntegerLiteral 5),
      ExpressionStatement (IntegerLiteral 6)] env0 s0 =
   Some (Ok (Some (Addr 2)),
     \<lparr>objs = [Integer 4, Integer 5, ReturnValue (Some (Addr 1))], frames = [Map.empty], clock = 4\<rparr>)"
proof -
  let ?s1 = "\<lparr>objs = [Integer 4], frames = [Map.empty], clock = 2\<rparr>"
  let ?s2 = "\<lparr>objs = [Integer 4, Integer 5, ReturnValue (Some (Addr 1))],
              frames = [Map.empty], clock = 4\<rparr>"
  have p: "passes (Eval 2 D0 never) env0 [ExpressionStatement (IntegerLiteral 4)] s0 = Some ?s1"
    by (simp add: run_defs stops_def)
  have e: "Eval 2 D0 never (Stmt (ReturnStatement (IntegerLiteral 5))) env0 ?s1 =
             Some (Ok (Some (Addr 2)), ?s2)"
    by (simp add: run_defs)
  have t: "stops ?s2 (Some (Addr 2))"
    by (simp add: stops_def)
  have "\<exists>pre st post.
          [ExpressionStatement (IntegerLiteral 4), ReturnStatement (IntegerLiteral 5),
           ExpressionStatement (IntegerLiteral 6)] = pre @ st # post \<and>
          (\<exists>s1. passes (Eval 2 D0 never) env0 pre s0 = Some s1 \<and>
             Eval 2 D0 never (Stmt st) env0 s1 = Some (Ok (Some (Addr 2)), ?s2) \<and>
             (stops ?s2 (Some (Addr 2)) \<or> post = []))"
    apply (rule exI [of _ "[ExpressionStatement (IntegerLiteral 4)]"])
    apply (rule exI [of _ "ReturnStatement (IntegerLiteral 5)"])
    apply (rule exI [of _ "[ExpressionStatement (IntegerLiteral 6)]"])
    using p e t by auto
  then show ?thesis
    using statement_sequences [where ev = "Eval 2 D0 never" and env = env0 and s = s0
        and stmts = "[ExpressionStatement (IntegerLiteral 4), ReturnStatement (IntegerLiteral 5),
                      ExpressionStatement (IntegerLiteral 6)]"
        and r = "Some (Addr 2)" and s' = ?s2]
    by blast
qed

theorem statement_sequences_counterexample:
  "Eval 2 D0 never (Stmt (ReturnStatement (IntegerLiteral 5))) env0 (s0\<lparr>clock := 1\<rparr>) =
     Some (Ok (Some (Addr 1)),
       \<lparr>objs = [Integer 5, ReturnValue (Some (Addr 0))], frames = [Map.empty], clock = 3\<rparr>) \<and>
   Eval 3 D0 never
     (Program [ReturnStatement (IntegerLiteral 5), ExpressionStatement (IntegerLiteral 6)]) env0 s0 =
     Some (Ok (Some (Addr 0)),
       \<lparr>objs = [Integer 5, ReturnValue (Some (Addr 0))], frames = [Map.empty], clock = 3\<rparr>) \<and>
   deref \<lparr>objs = [Integer 5, ReturnValue (Some (Addr 0))], frames = [Map.empty], clock = 3\<rparr> (Addr 1) =
     ReturnValue (Some (Addr 0)) \<and>
   deref \<lparr>objs = [Integer 5, ReturnValue (Some (Addr 0))], frames = [Map.empty], clock = 3\<rparr> (Addr 0) =
     Integer 5"
  by (simp add: run_defs)

section \<open>Errors of infix operators\<close>

lemma isError_new:
  "isError (s\<lparr>objs := objs s @ [ob]\<rparr>) (Some (Addr (length (objs s)))) = (Type ob = ERROR_OBJ)"
  by (simp add: isError_def)

lemma isError_nativeBool: "isError s (Some (nativeBoolToBooleanObject b)) = False"
  by (simp add: isError_def nativeBoolToBooleanObject_def)

lemma evalInfix_supported:
  assumes t: "Type (deref s l) = Type (deref s r)"
    and op: "operator \<in> supported (Type (deref s l))"
    and run: "evalInfixExpression D operator (Some l) (Some r) s = Some (Ok v, s')"
  shows "\<not> isError s' v"
proof (cases "Type (deref s l) = INTEGER_OBJ")
  case True
  then obtain a where a: "deref s l = Integer a" by (cases "deref s l") auto
  from True t obtain b where b: "deref s r = Integer b" by (cases "deref s r") auto
  from op True have "operator = ''+'' \<or> operator = ''-'' \<or> operator = ''*'' \<or> operator = ''/''
      \<or> operator = ''<'' \<or> operator = ''>'' \<or> operator = ''=='' \<or> operator = ''!=''"
    by (simp add: supported_def)
  with run show ?thesis
    unfolding evalInfix_Integer [OF a b]
    by (auto simp: evalIntegerInfixExpression_def andThen_def IntegerValue_Integer [OF a]
        IntegerValue_Integer [OF b] new_def return_def panic_def isError_new isError_nativeBool
        split: if_splits)
next
  case ni: False
  show ?thesis
  proof (cases "operator = ''=='' \<or> operator = ''!=''")
    case True
    with run ni show ?thesis
      by (auto simp: evalInfix_identity isError_nativeBool)
  next
    case False
    with op ni have s: "Type (deref s l) = STRING_OBJ" and p: "operator = ''+''"
      by (auto simp: supported_def split: if_splits)
    from s obtain x where x: "deref s l = String x" by (cases "deref s l") auto
    from s t obtain y where y: "deref s r = String y" by (cases "deref s r") auto
    from run show ?thesis
      by (auto simp: evalInfixExpression_def andThen_def bothOfType_Some x y p
          evalStringInfixExpression_def StringValue_String [OF x] StringValue_String [OF y]
          new_def return_def isError_new)
  qed
qed

text \<open>
  C3 as the code has it.  For the two operand objects of an infix expression: when they are
  of different kinds and the operator is neither \<open>==\<close> nor \<open>!=\<close>, the result is a newly
  allocated \<open>Error\<close> object whose message starts with \<open>type mismatch: \<close>; when they are of
  the same kind and the operator is not supported for that kind, it is a newly allocated
  \<open>Error\<close> object whose message starts with \<open>unknown operator: \<close>; and a supported operator
  on a same-kind pair never yields an \<open>Error\<close> object.
\<close>

theorem infix_errors:
  "(Type (deref s l) \<noteq> Type (deref s r) \<and> operator \<noteq> ''=='' \<and> operator \<noteq> ''!='' \<longrightarrow>
      evalInfixExpression D operator (Some l) (Some r) s =
        Some (Ok (Some (Addr (length (objs s)))),
              s\<lparr>objs := objs s @
                 [Error (''type mismatch: '' @ type_name D (Type (deref s l)) @ '' '' @ operator
                           @ '' '' @ type_name D (Type (deref s r)))]\<rparr>)) \<and>
   (Type (deref s l) = Type (deref s r) \<and> operator \<notin> supported (Type (deref s l)) \<longrightarrow>
      evalInfixExpression D operator (Some l) (Some r) s =
        Some (Ok (Some (Addr (length (objs s)))),
              s\<lparr>objs := objs s @
                 [Error (''unknown operator: '' @ type_name D (Type (deref s l)) @ '' '' @ operator
                           @ '' '' @ type_name D (Type (deref s r)))]\<rparr>)) \<and>
   (Type (deref s l) = Type (deref s r) \<and> operator \<in> supported (Type (deref s l)) \<and>
    evalInfixExpression D operator (Some l) (Some r) s = Some (Ok v, s') \<longrightarrow> \<not> isError s' v)"
proof (intro conjI impI)
  assume a: "Type (deref s l) \<noteq> Type (deref s r) \<and> operator \<noteq> ''=='' \<and> operator \<noteq> ''!=''"
  then have a1: "Type (deref s l) \<noteq> Type (deref s r)" and a2: "operator \<noteq> ''==''"
    and a3: "operator \<noteq> ''!=''" by blast+
  show "evalInfixExpression D operator (Some l) (Some r) s =
        Some (Ok (Some (Addr (length (objs s)))),
              s\<lparr>objs := objs s @
                 [Error (''type mismatch: '' @ type_name D (Type (deref s l)) @ '' '' @ operator
                           @ '' '' @ type_name D (Type (deref s r)))]\<rparr>)"
    by (simp add: evalInfix_mismatch [OF a1 a2 a3] newError_def new_def)
next
  assume b: "Type (deref s l) = Type (deref s r) \<and> operator \<notin> supported (Type (deref s l))"
  then have b1: "Type (deref s l) = Type (deref s r)"
    and b2: "operator \<notin> supported (Type (deref s l))" by blast+
  show "evalInfixExpression D operator (Some l) (Some r) s =
        Some (Ok (Some (Addr (length (objs s)))),
              s\<lparr>objs := objs s @
                 [Error (''unknown operator: '' @ type_name D (Type (deref s l)) @ '' '' @ operator
                           @ '' '' @ type_name D (Type (deref s r)))]\<rparr>)"
    by (simp add: evalInfix_unknown [OF b1 b2] newError_def new_def)
next
  assume "Type (deref s l) = Type (deref s r) \<and> operator \<in> supported (Type (deref s l)) \<and>
    evalInfixExpression D operator (Some l) (Some r) s = Some (Ok v, s')"
  then show "\<not> isError s' v"
    using evalInfix_supported [of s l r operator D v s'] by blast
qed

theorem infix_errors_witness:
  "evalInfixExpression D0 ''+'' (Some (Addr 0)) (Some TRUE)
     \<lparr>objs = [Integer 5], frames = [Map.empty], clock = 3\<rparr> =
   Some (Ok (Some (Addr 1)),
     \<lparr>objs = [Integer 5, Error ''type mismatch: INTEGER + BOOLEAN''],
      frames = [Map.empty], clock = 3\<rparr>) \<and>
   evalInfixExpression D0 ''-'' (Some TRUE) (Some FALSE)
     \<lparr>objs = [], frames = [Map.empty], clock = 3\<rparr> =
   Some (Ok (Some (Addr 0)),
     \<lparr>objs = [Error ''unknown operator: BOOLEAN - BOOLEAN''],
      frames = [Map.empty], clock = 3\<rparr>)"
  using infix_errors [of "\<lparr>objs = [Integer 5], frames = [Map.empty], clock = 3\<rparr>"
      "Addr 0" TRUE "''+''" D0]
    infix_errors [of "\<lparr>objs = [], frames = [Map.empty], clock = 3\<rparr>" TRUE FALSE "''-''" D0]
  by (simp add: D0_def supported_def)

theorem infix_errors_counterexample:
  "Eval 2 D0 never (Expr (InfixExpression (IntegerLiteral 5) ''=='' (BooleanLiteral True))) env0 s0 =
     Some (Ok (Some FALSE), \<lparr>objs = [Integer 5], frames = [Map.empty], clock = 3\<rparr>) \<and>
   Type (deref \<lparr>objs = [Integer 5], frames = [Map.empty], clock = 3\<rparr> (Addr 0)) = INTEGER_OBJ \<and>
   Type (deref \<lparr>objs = [Integer 5], frames = [Map.empty], clock = 3\<rparr> TRUE) = BOOLEAN_OBJ \<and>
   \<not> isError \<lparr>objs = [Integer 5], frames = [Map.empty], clock = 3\<rparr> (Some FALSE)"
  by (simp add: run_defs)

section \<open>Conditionals and bindings\<close>

lemma frame_update_other:
  "other \<noteq> name \<Longrightarrow> ((fs[a := (fs ! a)(name \<mapsto> val)]) ! b) other = (fs ! b) other"
  by (cases "a < length fs") (auto simp: nth_list_update list_update_beyond)

lemma Get_other_after_Set:
  assumes "other \<noteq> name"
  shows "Get (s\<lparr>frames := (frames s)[a := (frames s ! a)(name \<mapsto> val)]\<rparr>) env other = Get s env other"
  using assms
  by (induction s env other rule: Get.induct) (simp_all add: frame_update_other split: option.split)

text \<open>
  C9 as the code has it.  For every let statement (entered while the run is not cancelled) the value
  expression is evaluated first, in the state of entry.  When it yields a result that is
  not an \<open>Error\<close> object, the name is bound to it in the frame of the current environment
  (a lookup of the name then finds it, every other lookup is as before) and the statement
  yields no value.  When it yields an \<open>Error\<close> object, that object is the statement's
  result and the statement binds nothing: the state is the one the value expression left,
  with the bindings that the value expression itself may have made.
  An \<open>error\<close> or a panic of the value expression is passed on, again without a binding.
\<close>

theorem let_statement:
  assumes "ctx (clock s) = None"
  shows
    "(Eval n D ctx (Expr rhs) env (s\<lparr>clock := Suc (clock s)\<rparr>) = Some (Ok val, s1) \<and> isError s1 val \<longrightarrow>
        Eval (Suc n) D ctx (Stmt (LetStatement name rhs)) env s = Some (Ok val, s1)) \<and>
     (Eval n D ctx (Expr rhs) env (s\<lparr>clock := Suc (clock s)\<rparr>) = Some (Ok val, s1) \<and> \<not> isError s1 val \<longrightarrow>
        Eval (Suc n) D ctx (Stmt (LetStatement name rhs)) env s =
          Some (Ok None,
                s1\<lparr>frames := (frames s1)[store env := (frames s1 ! store env)(name \<mapsto> val)]\<rparr>) \<and>
        (store env < length (frames s1) \<longrightarrow>
           Get (s1\<lparr>frames := (frames s1)[store env := (frames s1 ! store env)(name \<mapsto> val)]\<rparr>)
             env name = Some val) \<and>
        (other \<noteq> name \<longrightarrow>
           Get (s1\<lparr>frames := (frames s1)[store env := (frames s1 ! store env)(name \<mapsto> val)]\<rparr>)
             env' other = Get s1 env' other)) \<and>
     (Eval n D ctx (Expr rhs) env (s\<lparr>clock := Suc (clock s)\<rparr>) = Some (Err e, s1) \<longrightarrow>
        Eval (Suc n) D ctx (Stmt (LetStatement name rhs)) env s = Some (Err e, s1)) \<and>
     (Eval n D ctx (Expr rhs) env (s\<lparr>clock := Suc (clock s)\<rparr>) = Some (Panic, s1) \<longrightarrow>
        Eval (Suc n) D ctx (Stmt (LetStatement name rhs)) env s = Some (Panic, s1))"
  using assms Get_after_Set [of env s1 name val]
    Get_other_after_Set [of other name s1 "store env" val env']
  by (auto simp: Eval_LetStatement Eval_Suc_not_cancelled andThen_def return_def Set_def)

theorem let_statement_witness:
  "Eval 2 D0 never (Stmt (LetStatement ''x'' (IntegerLiteral 5))) env0 s0 =
     Some (Ok None, \<lparr>objs = [Integer 5], frames = [[''x'' \<mapsto> Some (Addr 0)]], clock = 2\<rparr>) \<and>
   Eval 2 D0 never (Stmt (LetStatement ''x'' (Identifier ''y''))) env0 s0 =
     Some (Ok (Some (Addr 0)),
           \<lparr>objs = [Error ''identifier not found: y''], frames = [Map.empty], clock = 2\<rparr>)"
proof -
  have v: "Eval 1 D0 never (Expr (IntegerLiteral 5)) env0 (s0\<lparr>clock := Suc (clock s0)\<rparr>) =
             Some (Ok (Some (Addr 0)), \<lparr>objs = [Integer 5], frames = [Map.empty], clock = 2\<rparr>)"
    by (simp add: run_defs)
  have w: "Eval 1 D0 never (Expr (Identifier ''y'')) env0 (s0\<lparr>clock := Suc (clock s0)\<rparr>) =
             Some (Ok (Some (Addr 0)),
                   \<lparr>objs = [Error ''identifier not found: y''], frames = [Map.empty], clock = 2\<rparr>)"
    by (simp add: run_defs)
  have c: "never (clock s0) = None" by (simp add: never_def)
  from let_statement [where ctx = never and s = s0 and n = 1 and D = D0 and env = env0
      and rhs = "IntegerLiteral 5" and val = "Some (Addr 0)" and name = "''x''"
      and ?s1.0 = "\<lparr>objs = [Integer 5], frames = [Map.empty], clock = 2\<rparr>", OF c] v
  have a: "Eval 2 D0 never (Stmt (LetStatement ''x'' (IntegerLiteral 5))) env0 s0 =
     Some (Ok None, \<lparr>objs = [Integer 5], frames = [[''x'' \<mapsto> Some (Addr 0)]], clock = 2\<rparr>)"
    by (simp add: isError_def env0_def eval_nat_numeral)
  from let_statement [where ctx = never and s = s0 and n = 1 and D = D0 and env = env0
      and rhs = "Identifier ''y''" and val = "Some (Addr 0)" and name = "''x''"
      and ?s1.0 = "\<lparr>objs = [Error ''identifier not found: y''], frames = [Map.empty], clock = 2\<rparr>",
      OF c] w
  have b: "Eval 2 D0 never (Stmt (LetStatement ''x'' (Identifier ''y''))) env0 s0 =
     Some (Ok (Some (Addr 0)),
           \<lparr>objs = [Error ''identifier not found: y''], frames = [Map.empty], clock = 2\<rparr>)"
    by (simp add: isError_def env0_def eval_nat_numeral)
  from a b show ?thesis by simp
qed

text \<open>
  A value expression that binds a name and then yields an \<open>Error\<close> object: in
  \<open>let x = if (true) { let y = 1; z };\<close> the block of the if-expression is evaluated in the
  current environment, so \<open>y\<close>, unbound before, is bound in it when the let statement
  returns the \<open>Error\<close> object for \<open>z\<close>; \<open>x\<close> is not bound.
\<close>

theorem let_statement_counterexample:
  "Get s0 env0 ''y'' = None \<and>
   Eval 5 D0 never
     (Stmt (LetStatement ''x''
        (IfExpression (BooleanLiteral True)
           [LetStatement ''y'' (IntegerLiteral 1), ExpressionStatement (Identifier ''z'')] None)))
     env0 s0 =
   Some (Ok (Some (Addr 1)),
     \<lparr>objs = [Integer 1, Error ''identifier not found: z''],
      frames = [[''y'' \<mapsto> Some (Addr 0)]], clock = 8\<rparr>) \<and>
   isError \<lparr>objs = [Integer 1, Error ''identifier not found: z''],
            frames = [[''y'' \<mapsto> Some (Addr 0)]], clock = 8\<rparr> (Some (Addr 1)) \<and>
   Get \<lparr>objs = [Integer 1, Error ''identifier not found: z''],
        frames = [[''y'' \<mapsto> Some (Addr 0)]], clock = 8\<rparr> env0 ''y'' = Some (Some (Addr 0))"
  by (simp add: run_defs)

text \<open>
  C6 as the code has it.  For every if-expression (entered while the run is not cancelled)
  whose condition yields a result: exactly the singletons \<open>NULL\<close> and \<open>FALSE\<close> are
  falsy, every other result (an \<open>Integer\<close> object holding zero included) is truthy.  When
  the condition's result is not an \<open>Error\<close> object, a truthy one makes the if-expression
  evaluate the consequence block and yield what it yields, a falsy one makes it evaluate
  the alternative block when there is one, and yield \<open>NULL\<close> when there is none.  When the
  condition's result is an \<open>Error\<close> object, that object is the result of the if-expression
  and neither block is evaluated.
\<close>

theorem if_expression:
  assumes "ctx (clock s) = None"
    and "Eval n D ctx (Expr cond) env (s\<lparr>clock := Suc (clock s)\<rparr>) = Some (Ok c, s1)"
  shows "(isTruthy c \<longleftrightarrow> c \<noteq> Some NULL \<and> c \<noteq> Some FALSE) \<and>
         (deref s1 z = Integer 0 \<longrightarrow> isTruthy (Some z)) \<and>
         (\<not> isError s1 c \<longrightarrow>
            Eval (Suc n) D ctx (Expr (IfExpression cond cons alt)) env s =
              (if isTruthy c then Eval n D ctx (Stmt (BlockStatement cons)) env s1
               else case alt of
                      Some a \<Rightarrow> Eval n D ctx (Stmt (BlockStatement a)) env s1
                    | None \<Rightarrow> Some (Ok (Some NULL), s1))) \<and>
         (isError s1 c \<longrightarrow>
            Eval (Suc n) D ctx (Expr (IfExpression cond cons alt)) env s = Some (Ok c, s1))"
proof -
  have z: "deref s1 z = Integer 0 \<longrightarrow> isTruthy (Some z)"
    by (cases z) auto
  show ?thesis
    using assms z
    by (simp add: isTruthy_iff Eval_Suc_not_cancelled evalIfExpression_def andThen_def return_def
        split: option.split)
qed

theorem if_expression_witness:
  "Eval 4 D0 never (Expr (IfExpression (IntegerLiteral 0)
       [ExpressionStatement (IntegerLiteral 10)] (Some [ExpressionStatement (IntegerLiteral 20)])))
     env0 s0 =
   Some (Ok (Some (Addr 1)), \<lparr>objs = [Integer 0, Integer 10], frames = [Map.empty], clock = 5\<rparr>)"
proof -
  have c: "never (clock s0) = None" by (simp add: never_def)
  have v: "Eval 3 D0 never (Expr (IntegerLiteral 0)) env0 (s0\<lparr>clock := Suc (clock s0)\<rparr>) =
             Some (Ok (Some (Addr 0)), \<lparr>objs = [Integer 0], frames = [Map.empty], clock = 2\<rparr>)"
    by (simp add: run_defs)
  have b: "Eval 3 D0 never (Stmt (BlockStatement [ExpressionStatement (IntegerLiteral 10)])) env0
             \<lparr>objs = [Integer 0], frames = [Map.empty], clock = 2\<rparr> =
           Some (Ok (Some (Addr 1)),
                 \<lparr>objs = [Integer 0, Integer 10], frames = [Map.empty], clock = 5\<rparr>)"
    by (simp add: run_defs)
  from if_expression [where ctx = never and s = s0 and z = "Addr 0"
      and cons = "[ExpressionStatement (IntegerLiteral 10)]"
      and alt = "Some [ExpressionStatement (IntegerLiteral 20)]", OF c v] b
  show ?thesis
    by (simp add: isError_def eval_nat_numeral)
qed

text \<open>
  The condition \<open>x\<close> with \<open>x\<close> unbound yields an \<open>Error\<close> object, which the truthiness rule
  counts as truthy; the consequence block would yield the integer 10; the if-expression
  \<open>if (x) { 10 }\<close> yields the \<open>Error\<close> object and does not evaluate the block.
\<close>

theorem if_expression_counterexample:
  "Eval 3 D0 never (Expr (Identifier ''x'')) env0 (s0\<lparr>clock := 1\<rparr>) =
     Some (Ok (Some (Addr 0)),
       \<lparr>objs = [Error ''identifier not found: x''], frames = [Map.empty], clock = 2\<rparr>) \<and>
   isTruthy (Some (Addr 0)) \<and>
   Eval 3 D0 never (Stmt (BlockStatement [ExpressionStatement (IntegerLiteral 10)])) env0
       \<lparr>objs = [Error ''identifier not found: x''], frames = [Map.empty], clock = 2\<rparr> =
     Some (Ok (Some (Addr 1)),
       \<lparr>objs = [Error ''identifier not found: x'', Integer 10], frames = [Map.empty], clock = 5\<rparr>) \<and>
   Eval 4 D0 never
       (Expr (IfExpression (Identifier ''x'') [ExpressionStatement (IntegerLiteral 10)] None))
       env0 s0 =
     Some (Ok (Some (Addr 0)),
       \<lparr>objs = [Error ''identifier not found: x''], frames = [Map.empty], clock = 2\<rparr>)"
  by (simp add: run_defs)

section \<open>The heap stays well formed\<close>

text \<open>
  Each function of the evaluator is sound: from a well-formed heap it reaches a
  well-formed heap that has only grown, and what it returns refers into that heap.  The
  functions that call \<open>Eval\<close> are sound when their evaluator is; by induction on the depth
  of the recursion, so is \<open>Eval\<close>.  In a well-formed heap a reference to a \<open>Boolean\<close> or a
  \<open>Null\<close> is one of the singletons (\<open>deref_ok\<close>).
\<close>

lemma ok_ref_mono: "n \<le> n' \<Longrightarrow> ok_ref n r \<Longrightarrow> ok_ref n' r"
  by (cases r) auto

lemma ok_val_mono: "n \<le> n' \<Longrightarrow> ok_val n v \<Longrightarrow> ok_val n' v"
  by (auto simp: ok_val_def ok_ref_mono split: option.splits)

lemma ok_env_mono: "m \<le> m' \<Longrightarrow> ok_env m e \<Longrightarrow> ok_env m' e"
  by (induction m e rule: ok_env.induct) auto

lemma ok_obj_mono: "n \<le> n' \<Longrightarrow> m \<le> m' \<Longrightarrow> ok_obj n m ob \<Longrightarrow> ok_obj n' m' ob"
  by (cases ob) (auto intro: ok_val_mono ok_env_mono)

lemma grows_refl: "grows s s"
  by (simp add: grows_def)

lemma grows_trans: "grows s s1 \<Longrightarrow> grows s1 s2 \<Longrightarrow> grows s s2"
  by (auto simp: grows_def)

lemma val_ok_grows: "grows s s' \<Longrightarrow> val_ok s v \<Longrightarrow> val_ok s' v"
  by (auto simp: grows_def val_ok_def intro: ok_val_mono)

lemma vals_ok_grows: "grows s s' \<Longrightarrow> vals_ok s vs \<Longrightarrow> vals_ok s' vs"
  by (auto simp: vals_ok_def intro: val_ok_grows)

lemma pairs_ok_grows: "grows s s' \<Longrightarrow> pairs_ok s ps \<Longrightarrow> pairs_ok s' ps"
  by (auto simp: pairs_ok_def intro: val_ok_grows)

lemma env_ok_grows: "grows s s' \<Longrightarrow> env_ok s e \<Longrightarrow> env_ok s' e"
  by (auto simp: grows_def env_ok_def intro: ok_env_mono)

lemma sound_andThen:
  assumes "sound V s (m s)"
    and "\<And>x s1. \<lbrakk>m s = Some (Ok x, s1); heap_ok s1; grows s s1; V s1 x\<rbrakk> \<Longrightarrow> sound W s1 (f x s1)"
  shows "sound W s (andThen m f s)"
proof (cases "heap_ok s")
  case False
  then show ?thesis by (simp add: sound_def)
next
  case w: True
  show ?thesis
  proof (cases "m s")
    case None
    then show ?thesis by (simp add: andThen_def sound_def)
  next
    case (Some p)
    obtain r s1 where p: "p = (r, s1)" by (cases p)
    show ?thesis
    proof (cases r)
      case Panic
      with Some p assms(1) show ?thesis by (simp add: andThen_def sound_def)
    next
      case (Err e)
      with Some p assms(1) show ?thesis by (simp add: andThen_def sound_def)
    next
      case (Ok x)
      with Some p have ms: "m s = Some (Ok x, s1)" by simp
      from assms(1) ms w have a: "heap_ok s1" "grows s s1" "V s1 x"
        by (simp_all add: sound_def)
      have b: "sound W s1 (f x s1)" using ms a by (rule assms(2))
      have "sound W s (f x s1)"
        using a(1,2) b
        by (auto simp: sound_def split: option.splits outcome.splits prod.splits
            intro: grows_trans)
      then show ?thesis using ms by (simp add: andThen_def)
    qed
  qed
qed

lemma sound_return: "V s x \<Longrightarrow> sound V s (return x s)"
  by (simp add: sound_def return_def grows_refl)

lemma sound_return_any: "sound any_ok s (return x s)"
  by (simp add: sound_return any_ok_def)

lemma sound_panic: "sound V s (panic s)"
  by (simp add: sound_def panic_def grows_refl)

lemma heap_ok_new:
  assumes "heap_ok s" and "ok_obj (length (objs s)) (length (frames s)) ob"
  shows "heap_ok (s\<lparr>objs := objs s @ [ob]\<rparr>)"
  using assms
  by (auto simp: heap_ok_def intro: ok_obj_mono [where n = "length (objs s)" and m = "length (frames s)"]
      ok_val_mono [where n = "length (objs s)"])

lemma sound_new:
  "ok_obj (length (objs s)) (length (frames s)) ob \<Longrightarrow> sound val_ok s (new ob s)"
  by (simp add: sound_def new_def heap_ok_new grows_def val_ok_def ok_val_def)

lemma sound_new_Integer: "sound val_ok s (new (Integer v) s)"
  by (simp add: sound_new)

lemma sound_new_String: "sound val_ok s (new (String v) s)"
  by (simp add: sound_new)

lemma sound_newError: "sound val_ok s (newError msg s)"
  by (simp add: newError_def sound_new)

lemma heap_ok_Set:
  assumes "heap_ok s" and "val_ok s v"
  shows "heap_ok (s\<lparr>frames := (frames s)[i := (frames s ! i)(name \<mapsto> v)]\<rparr>)"
proof (cases "i < length (frames s)")
  case False
  then show ?thesis using assms(1) by (simp add: list_update_beyond heap_ok_def)
next
  case True
  have old: "\<forall>x\<in>ran (frames s ! i). ok_val (length (objs s)) x"
    using assms(1) True by (auto simp: heap_ok_def)
  have new: "\<forall>x\<in>ran ((frames s ! i)(name \<mapsto> v)). ok_val (length (objs s)) x"
  proof
    fix x assume "x \<in> ran ((frames s ! i)(name \<mapsto> v))"
    then have "x = v \<or> x \<in> ran (frames s ! i)"
      by (auto simp: ran_def split: if_splits)
    with old assms(2) show "ok_val (length (objs s)) x" by (auto simp: val_ok_def)
  qed
  show ?thesis
    using assms(1) new
    by (auto simp: heap_ok_def dest!: set_update_subset_insert [THEN subsetD])
qed

lemma sound_Set: "val_ok s v \<Longrightarrow> sound any_ok s (Set env name v s)"
  by (simp add: sound_def Set_def heap_ok_Set grows_def any_ok_def)

lemma sound_NewEnclosedEnvironment:
  assumes "env_ok s out"
  shows "sound env_ok s (NewEnclosedEnvironment out s)"
proof -
  have "heap_ok s \<Longrightarrow> heap_ok (s\<lparr>frames := frames s @ [Map.empty]\<rparr>)"
    by (auto simp: heap_ok_def intro: ok_obj_mono [where n = "length (objs s)" and m = "length (frames s)"])
  moreover have "ok_env (Suc (length (frames s))) out"
    using assms by (auto simp: env_ok_def intro: ok_env_mono [where m = "length (frames s)"])
  ultimately show ?thesis
    by (simp add: sound_def NewEnclosedEnvironment_def grows_def env_ok_def)
qed

lemma sound_TypeOf: "sound any_ok s (TypeOf ob s)"
  by (simp add: TypeOf_def sound_return_any sound_panic split: option.split)

lemma sound_IntegerValue: "sound any_ok s (IntegerValue ob s)"
  by (simp add: IntegerValue_def sound_return_any sound_panic split: option.split obj.split)

lemma sound_StringValue: "sound any_ok s (StringValue ob s)"
  by (simp add: StringValue_def sound_return_any sound_panic split: option.split obj.split)

lemma sound_HashKeyOf: "sound any_ok s (HashKeyOf D ob s)"
  by (simp add: HashKeyOf_def sound_return_any sound_panic split: option.split)

lemma val_ok_simps:
  "val_ok s None" "val_ok s (Some NULL)" "val_ok s (Some TRUE)" "val_ok s (Some FALSE)"
  "val_ok s (Some (BuiltinRef name))" "val_ok s (Some (nativeBoolToBooleanObject b))"
  by (simp_all add: val_ok_def ok_val_def nativeBoolToBooleanObject_def)

lemma val_ok_bang: "val_ok s (Some (evalBangOperatorExpression ob))"
  by (cases ob rule: evalBangOperatorExpression.cases) (simp_all add: val_ok_simps)

lemmas sound_any = sound_andThen [where V = any_ok]
lemmas sound_val = sound_andThen [where V = val_ok]
lemmas sound_vals = sound_andThen [where V = vals_ok]
lemmas sound_pairs = sound_andThen [where V = pairs_ok]
lemmas sound_env = sound_andThen [where V = env_ok]

lemmas sound_intros = sound_any sound_return_any sound_panic sound_new_Integer
  sound_new_String sound_newError sound_TypeOf sound_IntegerValue sound_StringValue
  sound_HashKeyOf

lemma sound_return_singleton:
  "sound val_ok s (return (Some (nativeBoolToBooleanObject b)) s)"
  "sound val_ok s (return (Some NULL) s)"
  "sound val_ok s (return (Some (evalBangOperatorExpression ob)) s)"
  "sound val_ok s (return (Some (BuiltinRef name)) s)"
  "sound val_ok s (return None s)"
  by (simp_all add: sound_return val_ok_simps val_ok_bang)

lemma sound_bothOfType: "sound any_ok s (bothOfType t l r s)"
  unfolding bothOfType_def by (intro sound_intros) (simp add: sound_intros)

lemma sound_evalIntegerInfixExpression:
  "sound val_ok s (evalIntegerInfixExpression D operator l r s)"
  unfolding evalIntegerInfixExpression_def
  by (intro sound_intros) (simp add: sound_intros sound_return_singleton)

lemma sound_evalStringInfixExpression:
  "sound val_ok s (evalStringInfixExpression D operator l r s)"
  unfolding evalStringInfixExpression_def
  by (simp add: sound_intros)

lemma sound_evalInfixExpression: "sound val_ok s (evalInfixExpression D operator l r s)"
  unfolding evalInfixExpression_def
  by (intro sound_intros sound_bothOfType)
     (simp add: sound_intros sound_bothOfType sound_evalIntegerInfixExpression
        sound_evalStringInfixExpression sound_return_singleton)

lemma sound_evalPrefixExpression: "sound val_ok s (evalPrefixExpression D operator r s)"
  unfolding evalPrefixExpression_def evalMinusPrefixOperatorExpression_def
  by (simp add: sound_intros sound_return_singleton)


lemma deref_ok:
  assumes "heap_ok s" and "val_ok s (Some r)"
  shows "deref s r = Array es \<Longrightarrow> vals_ok s es"
    and "deref s r = Hash ps \<Longrightarrow> pairs_ok s ps"
    and "deref s r = Function params body e \<Longrightarrow> env_ok s e"
    and "deref s r = ReturnValue v \<Longrightarrow> val_ok s v"
    and "deref s r = Boolean b \<Longrightarrow> r = nativeBoolToBooleanObject b"
    and "deref s r = Null \<Longrightarrow> r = NULL"
proof -
  have ok: "\<And>a. r = Addr a \<Longrightarrow> ok_obj (length (objs s)) (length (frames s)) (objs s ! a)"
    using assms by (simp add: heap_ok_def val_ok_def ok_val_def)
  show "deref s r = Array es \<Longrightarrow> vals_ok s es"
    using ok by (cases r) (auto simp: vals_ok_def val_ok_def)
  show "deref s r = Hash ps \<Longrightarrow> pairs_ok s ps"
    using ok by (cases r) (auto simp: pairs_ok_def val_ok_def)
  show "deref s r = Function params body e \<Longrightarrow> env_ok s e"
    using ok by (cases r) (auto simp: env_ok_def)
  show "deref s r = ReturnValue v \<Longrightarrow> val_ok s v"
    using ok by (cases r) (auto simp: val_ok_def)
  show "deref s r = Boolean b \<Longrightarrow> r = nativeBoolToBooleanObject b"
    using ok by (cases r) (auto simp: nativeBoolToBooleanObject_def)
  show "deref s r = Null \<Longrightarrow> r = NULL"
    using ok by (cases r) auto
qed

lemma sound_ArrayElements: "val_ok s ob \<Longrightarrow> sound vals_ok s (ArrayElements ob s)"
  by (auto simp: ArrayElements_def sound_def return_def panic_def grows_refl
      split: option.split obj.split dest: deref_ok(1))

lemma sound_HashPairs: "val_ok s ob \<Longrightarrow> sound pairs_ok s (HashPairs ob s)"
  by (auto simp: HashPairs_def sound_def return_def panic_def grows_refl
      split: option.split obj.split dest: deref_ok(2))

lemma sound_evalArrayIndexExpression:
  assumes "val_ok s a"
  shows "sound val_ok s (evalArrayIndexExpression a i s)"
  unfolding evalArrayIndexExpression_def
proof (rule sound_vals)
  show "sound vals_ok s (ArrayElements a s)" by (rule sound_ArrayElements [OF assms])
next
  fix elements s1
  assume e: "vals_ok s1 elements"
  show "sound val_ok s1
          (andThen (IntegerValue i) (\<lambda>idx.
             let max = int (length elements) - 1 in
             if sint idx < 0 \<or> sint idx > max then return (Some NULL)
             else return (elements ! nat (sint idx))) s1)"
  proof (rule sound_any)
    show "sound any_ok s1 (IntegerValue i s1)" by (rule sound_IntegerValue)
  next
    fix idx s2
    assume g: "grows s1 s2"
    have "vals_ok s2 elements" using g e by (rule vals_ok_grows)
    then have "\<not> sint idx < 0 \<Longrightarrow> \<not> sint idx > int (length elements) - 1 \<Longrightarrow>
               val_ok s2 (elements ! nat (sint idx))"
      by (simp add: vals_ok_def)
    then show "sound val_ok s2
            ((let max = int (length elements) - 1 in
              if sint idx < 0 \<or> sint idx > max then return (Some NULL)
              else return (elements ! nat (sint idx))) s2)"
      by (simp add: Let_def sound_return_singleton sound_return)
  qed
qed

lemma sound_evalHashIndexExpression:
  assumes "val_ok s h"
  shows "sound val_ok s (evalHashIndexExpression D h i s)"
  unfolding evalHashIndexExpression_def
proof (rule sound_pairs)
  show "sound pairs_ok s (HashPairs h s)" by (rule sound_HashPairs [OF assms])
next
  fix pairs s1
  assume p: "pairs_ok s1 pairs"
  have "sound val_ok s1 (andThen (TypeOf i) (\<lambda>it.
          newError (''unusable as hash key: '' @ type_name D it)) s1)"
    by (intro sound_intros)
  moreover have "sound val_ok s1 (andThen (HashKeyOf D i) (\<lambda>key.
           case pairs key of
             None \<Rightarrow> return (Some NULL)
           | Some pair \<Rightarrow> return (snd pair)) s1)"
  proof (rule sound_any)
    show "sound any_ok s1 (HashKeyOf D i s1)" by (rule sound_HashKeyOf)
  next
    fix key s2
    assume g: "grows s1 s2"
    have "pairs_ok s2 pairs" using g p by (rule pairs_ok_grows)
    then have "\<And>pair. pairs key = Some pair \<Longrightarrow> val_ok s2 (snd pair)"
      by (auto simp: pairs_ok_def intro: ranI)
    then show "sound val_ok s2
            ((case pairs key of
               None \<Rightarrow> return (Some NULL)
             | Some pair \<Rightarrow> return (snd pair)) s2)"
      by (simp add: sound_return_singleton sound_return split: option.split)
  qed
  ultimately show "sound val_ok s1
          (if \<not> isHashable s1 i then
             andThen (TypeOf i) (\<lambda>it.
               newError (''unusable as hash key: '' @ type_name D it)) s1
           else
             andThen (HashKeyOf D i) (\<lambda>key.
               case pairs key of
                 None \<Rightarrow> return (Some NULL)
               | Some pair \<Rightarrow> return (snd pair)) s1)"
    by simp
qed

lemma sound_evalIndexExpression:
  assumes "val_ok s left"
  shows "sound val_ok s (evalIndexExpression D left i s)"
  unfolding evalIndexExpression_def
proof (rule sound_any)
  show "sound any_ok s
     (andThen (TypeOf left) (\<lambda>lt.
        if lt = ARRAY_OBJ then andThen (TypeOf i) (\<lambda>it. return (it = INTEGER_OBJ))
        else return False) s)"
    by (intro sound_intros) (simp add: sound_intros)
next
  fix arrayIndex s1
  assume g: "grows s s1"
  have l: "val_ok s1 left" using g assms by (rule val_ok_grows)
  have "sound val_ok s1 (andThen (TypeOf left) (\<lambda>lt.
         if lt = HASH_OBJ then evalHashIndexExpression D left i
         else newError (''index operator not supported: '' @ type_name D lt)) s1)"
  proof (rule sound_any)
    show "sound any_ok s1 (TypeOf left s1)" by (rule sound_TypeOf)
  next
    fix lt s2
    assume "grows s1 s2"
    then have "val_ok s2 left" using l by (rule val_ok_grows)
    then show "sound val_ok s2
          ((if lt = HASH_OBJ then evalHashIndexExpression D left i
            else newError (''index operator not supported: '' @ type_name D lt)) s2)"
      by (simp add: sound_evalHashIndexExpression sound_newError)
  qed
  then show "sound val_ok s1
          ((if arrayIndex then evalArrayIndexExpression left i
            else andThen (TypeOf left) (\<lambda>lt.
              if lt = HASH_OBJ then evalHashIndexExpression D left i
              else newError (''index operator not supported: '' @ type_name D lt))) s1)"
    by (simp add: sound_evalArrayIndexExpression [OF l])
qed

lemma Get_ok:
  "heap_ok s \<Longrightarrow> env_ok s env \<Longrightarrow> Get s env name = Some v \<Longrightarrow> val_ok s v"
proof (induction s env name rule: Get.induct)
  case (1 s a name)
  then have "frames s ! a \<in> set (frames s)" by (simp add: env_ok_def)
  with 1 show ?case by (auto simp: heap_ok_def val_ok_def ran_def)
next
  case (2 s a out name)
  then have f: "frames s ! a \<in> set (frames s)" by (simp add: env_ok_def)
  show ?case
  proof (cases "(frames s ! a) name")
    case None
    with 2 show ?thesis by (simp add: env_ok_def)
  next
    case (Some w)
    with 2 f show ?thesis by (auto simp: heap_ok_def val_ok_def ran_def)
  qed
qed

lemma sound_evalIdentifier:
  assumes "env_ok s env"
  shows "sound val_ok s (evalIdentifier D name env s)"
proof (cases "Get s env name")
  case None
  then show ?thesis
    by (simp add: evalIdentifier_def sound_return_singleton sound_newError split: option.split)
next
  case (Some v)
  have "heap_ok s \<Longrightarrow> val_ok s v" using assms Some by (rule Get_ok [rotated])
  then show ?thesis using Some
    by (simp add: evalIdentifier_def sound_def return_def grows_refl)
qed

lemma sound_bindParameters:
  "vals_ok s args \<Longrightarrow> sound any_ok s (bindParameters env args ps k s)"
proof (induction ps arbitrary: k s)
  case Nil
  show ?case by (simp add: sound_return_any)
next
  case (Cons p ps)
  show ?case
  proof (cases "k < length args")
    case False
    then show ?thesis by (simp add: sound_panic)
  next
    case True
    then have "val_ok s (args ! k)" using Cons.prems by (simp add: vals_ok_def)
    then have "sound any_ok s (Set env p (args ! k) s)" by (rule sound_Set)
    then have "sound any_ok s (andThen (Set env p (args ! k))
                 (\<lambda>_. bindParameters env args ps (Suc k)) s)"
    proof (rule sound_any)
      fix u s1
      assume "grows s s1"
      then have "vals_ok s1 args" using Cons.prems by (rule vals_ok_grows)
      then show "sound any_ok s1 (bindParameters env args ps (Suc k) s1)" by (rule Cons.IH)
    qed
    with True show ?thesis by simp
  qed
qed

lemma sound_extendFunctionEnv:
  assumes "env_ok s fnEnv" and "vals_ok s args"
  shows "sound env_ok s (extendFunctionEnv ps fnEnv args s)"
  unfolding extendFunctionEnv_def
proof (rule sound_env)
  show "sound env_ok s (NewEnclosedEnvironment fnEnv s)"
    by (rule sound_NewEnclosedEnvironment [OF assms(1)])
next
  fix env s1
  assume g: "grows s s1" and e: "env_ok s1 env"
  have a: "vals_ok s1 args" using g assms(2) by (rule vals_ok_grows)
  show "sound env_ok s1 (andThen (bindParameters env args ps 0) (\<lambda>_. return env) s1)"
  proof (rule sound_any)
    show "sound any_ok s1 (bindParameters env args ps 0 s1)"
      by (rule sound_bindParameters [OF a])
  next
    fix u s2
    assume "grows s1 s2"
    then have "env_ok s2 env" using e by (rule env_ok_grows)
    then show "sound env_ok s2 (return env s2)" by (rule sound_return)
  qed
qed

lemma unwrapReturnValue_ok:
  "heap_ok s \<Longrightarrow> val_ok s v \<Longrightarrow> val_ok s (unwrapReturnValue s v)"
  by (cases v) (auto split: obj.split dest: deref_ok(4))


lemma sound_evaluatorD:
  "sound_evaluator ev \<Longrightarrow> env_ok s env \<Longrightarrow> sound val_ok s (ev node env s)"
  by (simp add: sound_evaluator_def)

lemma sound_evalProgramLoop:
  assumes E: "sound_evaluator ev"
  shows "env_ok s env \<Longrightarrow> val_ok s result \<Longrightarrow> sound val_ok s (evalProgramLoop ev env stmts result s)"
proof (induction stmts arbitrary: result s)
  case Nil
  then show ?case by (simp add: sound_return)
next
  case (Cons st stmts)
  show ?case
    unfolding evalProgramLoop.simps
  proof (rule sound_val)
    show "sound val_ok s (ev (Stmt st) env s)" using Cons.prems(1) by (rule sound_evaluatorD [OF E])
  next
    fix x s1
    assume h: "heap_ok s1" and g: "grows s s1" and x: "val_ok s1 x"
    have e: "env_ok s1 env" using g Cons.prems(1) by (rule env_ok_grows)
    have rest: "sound val_ok s1 (evalProgramLoop ev env stmts x s1)"
      using e x by (rule Cons.IH)
    show "sound val_ok s1
            (case x of
               None \<Rightarrow> evalProgramLoop ev env stmts x s1
             | Some r \<Rightarrow>
                 (case deref s1 r of
                    ReturnValue v \<Rightarrow> return v s1
                  | Error m \<Rightarrow> return x s1
                  | _ \<Rightarrow> evalProgramLoop ev env stmts x s1))"
    proof (cases x)
      case None
      with rest show ?thesis by simp
    next
      case (Some r)
      have "\<And>v. deref s1 r = ReturnValue v \<Longrightarrow> sound val_ok s1 (return v s1)"
        using deref_ok(4) [OF h x [unfolded Some]] by (rule sound_return)
      moreover have "sound val_ok s1 (return (Some r) s1)"
        using x Some by (simp add: sound_return)
      ultimately show ?thesis using rest Some by (simp split: obj.split)
    qed
  qed
qed

lemma sound_evalBlockLoop:
  assumes E: "sound_evaluator ev"
  shows "env_ok s env \<Longrightarrow> val_ok s result \<Longrightarrow> sound val_ok s (evalBlockLoop ev env stmts result s)"
proof (induction stmts arbitrary: result s)
  case Nil
  then show ?case by (simp add: sound_return)
next
  case (Cons st stmts)
  show ?case
    unfolding evalBlockLoop.simps
  proof (rule sound_val)
    show "sound val_ok s (ev (Stmt st) env s)" using Cons.prems(1) by (rule sound_evaluatorD [OF E])
  next
    fix x s1
    assume h: "heap_ok s1" and g: "grows s s1" and x: "val_ok s1 x"
    have e: "env_ok s1 env" using g Cons.prems(1) by (rule env_ok_grows)
    have rest: "sound val_ok s1 (evalBlockLoop ev env stmts x s1)"
      using e x by (rule Cons.IH)
    have stop: "sound val_ok s1 (return x s1)" using x by (rule sound_return)
    show "sound val_ok s1
            (case x of
               None \<Rightarrow> evalBlockLoop ev env stmts x s1
             | Some r \<Rightarrow>
                 (let rt = Type (deref s1 r) in
                  if rt = RETURN_VALUE_OBJ \<or> rt = ERROR_OBJ then return x s1
                  else evalBlockLoop ev env stmts x s1))"
      using rest stop by (cases x) (simp_all add: Let_def)
  qed
qed

lemma sound_evalExpressionsLoop:
  assumes E: "sound_evaluator ev"
  shows "env_ok s env \<Longrightarrow> vals_ok s result \<Longrightarrow>
         sound vals_ok s (evalExpressionsLoop ev env exps result s)"
proof (induction exps arbitrary: result s)
  case Nil
  then show ?case by (simp add: sound_return)
next
  case (Cons e exps)
  show ?case
    unfolding evalExpressionsLoop.simps
  proof (rule sound_val)
    show "sound val_ok s (ev (Expr e) env s)" using Cons.prems(1) by (rule sound_evaluatorD [OF E])
  next
    fix x s1
    assume g: "grows s s1" and x: "val_ok s1 x"
    have en: "env_ok s1 env" using g Cons.prems(1) by (rule env_ok_grows)
    have "vals_ok s1 result" using g Cons.prems(2) by (rule vals_ok_grows)
    then have "vals_ok s1 (result @ [x])" using x by (simp add: vals_ok_def)
    then have rest: "sound vals_ok s1 (evalExpressionsLoop ev env exps (result @ [x]) s1)"
      using en by (intro Cons.IH)
    have stop: "sound vals_ok s1 (return [x] s1)"
      using x by (simp add: sound_return vals_ok_def)
    show "sound vals_ok s1
            (if isError s1 x then return [x] s1
             else evalExpressionsLoop ev env exps (result @ [x]) s1)"
      using rest stop by simp
  qed
qed

lemma pairs_ok_upd:
  "pairs_ok s pairs \<Longrightarrow> val_ok s k \<Longrightarrow> val_ok s v \<Longrightarrow> pairs_ok s (pairs(h \<mapsto> (k, v)))"
  by (auto simp: pairs_ok_def ran_def split: if_splits)

lemma sound_evalHashLiteralLoop:
  assumes E: "sound_evaluator ev"
  shows "env_ok s env \<Longrightarrow> pairs_ok s pairs \<Longrightarrow>
         sound val_ok s (evalHashLiteralLoop D ev env kvs pairs s)"
proof (induction kvs arbitrary: pairs s)
  case Nil
  from Nil(2) have "ok_obj (length (objs s)) (length (frames s)) (Hash pairs)"
    by (simp add: pairs_ok_def val_ok_def)
  then show ?case by (simp add: sound_new)
next
  case (Cons kv kvs)
  show ?case
    unfolding evalHashLiteralLoop.simps
  proof (rule sound_val)
    show "sound val_ok s (ev (Expr (fst kv)) env s)" using Cons.prems(1) by (rule sound_evaluatorD [OF E])
  next
    fix key s1
    assume g: "grows s s1" and k: "val_ok s1 key"
    have en: "env_ok s1 env" using g Cons.prems(1) by (rule env_ok_grows)
    have ps: "pairs_ok s1 pairs" using g Cons.prems(2) by (rule pairs_ok_grows)
    have stop: "sound val_ok s1 (return key s1)" using k by (rule sound_return)
    have unusable: "sound val_ok s1 (andThen (TypeOf key) (\<lambda>kt.
                newError (''unusable as hash key: '' @ type_name D kt)) s1)"
      by (intro sound_intros)
    have rest: "sound val_ok s1
               (andThen (ev (Expr (snd kv)) env) (\<lambda>value s'.
                  if isError s' value then return value s'
                  else andThen (HashKeyOf D key) (\<lambda>hashed.
                         evalHashLiteralLoop D ev env kvs (pairs(hashed \<mapsto> (key, value)))) s') s1)"
    proof (rule sound_val)
      show "sound val_ok s1 (ev (Expr (snd kv)) env s1)" using en by (rule sound_evaluatorD [OF E])
    next
      fix val s2
      assume g2: "grows s1 s2" and v: "val_ok s2 val"
      have en2: "env_ok s2 env" using g2 en by (rule env_ok_grows)
      have ps2: "pairs_ok s2 pairs" using g2 ps by (rule pairs_ok_grows)
      have k2: "val_ok s2 key" using g2 k by (rule val_ok_grows)
      have stop2: "sound val_ok s2 (return val s2)" using v by (rule sound_return)
      have rest2: "sound val_ok s2 (andThen (HashKeyOf D key) (\<lambda>hashed.
                         evalHashLiteralLoop D ev env kvs (pairs(hashed \<mapsto> (key, val)))) s2)"
      proof (rule sound_any)
        show "sound any_ok s2 (HashKeyOf D key s2)" by (rule sound_HashKeyOf)
      next
        fix hashed s3
        assume g3: "grows s2 s3"
        have "pairs_ok s3 (pairs(hashed \<mapsto> (key, val)))"
          by (intro pairs_ok_upd pairs_ok_grows [OF g3 ps2] val_ok_grows [OF g3 k2]
                val_ok_grows [OF g3 v])
        with env_ok_grows [OF g3 en2]
        show "sound val_ok s3
               (evalHashLiteralLoop D ev env kvs (pairs(hashed \<mapsto> (key, val))) s3)"
          by (rule Cons.IH)
      qed
      show "sound val_ok s2
                 (if isError s2 val then return val s2
                  else andThen (HashKeyOf D key) (\<lambda>hashed.
                         evalHashLiteralLoop D ev env kvs (pairs(hashed \<mapsto> (key, val)))) s2)"
        using stop2 rest2 by simp
    qed
    show "sound val_ok s1
           (if isError s1 key then return key s1
            else if \<not> isHashable s1 key then
              andThen (TypeOf key) (\<lambda>kt.
                newError (''unusable as hash key: '' @ type_name D kt)) s1
            else
              andThen (ev (Expr (snd kv)) env) (\<lambda>value s'.
                if isError s' value then return value s'
                else andThen (HashKeyOf D key) (\<lambda>hashed.
                       evalHashLiteralLoop D ev env kvs (pairs(hashed \<mapsto> (key, value)))) s') s1)"
      using stop unusable rest by simp
  qed
qed

lemma sound_evalIfExpression:
  assumes E: "sound_evaluator ev"
    and en: "env_ok s env"
  shows "sound val_ok s (evalIfExpression ev c cons alt env s)"
  unfolding evalIfExpression_def
proof (rule sound_val)
  show "sound val_ok s (ev (Expr c) env s)" using en by (rule sound_evaluatorD [OF E])
next
  fix cond s1
  assume g: "grows s s1" and c: "val_ok s1 cond"
  have en1: "env_ok s1 env" using g en by (rule env_ok_grows)
  show "sound val_ok s1
          (if isError s1 cond then return cond s1
           else if isTruthy cond then ev (Stmt (BlockStatement cons)) env s1
           else
             (case alt of
                Some alt \<Rightarrow> ev (Stmt (BlockStatement alt)) env s1
              | None \<Rightarrow> return (Some NULL) s1))"
    using c by (simp add: sound_evaluatorD [OF E en1] sound_return sound_return_singleton split: option.split)
qed

lemma sound_builtin:
  assumes "builtins_ok D" and "builtins D name = Some Fn" and "Fn args (objs s) = Some (result, os')"
    and "vals_ok s args"
  shows "sound val_ok s (return result (s\<lparr>objs := os'\<rparr>))"
proof -
  { assume h: "heap_ok s"
    have pre: "(\<forall>ob\<in>set (objs s). ok_obj (length (objs s)) (length (frames s)) ob) \<and>
               (\<forall>a\<in>set args. ok_val (length (objs s)) a)"
      using h assms(4) by (simp add: heap_ok_def vals_ok_def val_ok_def)
    have post: "(\<forall>ob\<in>set os'. ok_obj (length os') (length (frames s)) ob) \<and>
                length (objs s) \<le> length os' \<and> ok_val (length os') result"
      using assms(1) [unfolded builtins_ok_def, rule_format,
                      where name = name and Fn = Fn and args = args and os = "objs s"
                        and result = result and os' = os' and m = "length (frames s)"]
        assms(2,3) pre by blast
    have "\<forall>fr\<in>set (frames s). \<forall>v\<in>ran fr. ok_val (length os') v"
      using h post by (auto simp: heap_ok_def intro: ok_val_mono [where n = "length (objs s)"])
    with post have "heap_ok (s\<lparr>objs := os'\<rparr>) \<and> grows s (s\<lparr>objs := os'\<rparr>) \<and>
                    val_ok (s\<lparr>objs := os'\<rparr>) result"
      by (simp add: heap_ok_def grows_def val_ok_def) }
  then show ?thesis by (simp add: sound_def return_def)
qed

lemma sound_applyFunction:
  assumes E: "sound_evaluator ev"
    and D: "builtins_ok D" and f: "val_ok s fn" and a: "vals_ok s args"
  shows "sound val_ok s (applyFunction D ev fn args s)"
proof (cases "heap_ok s")
  case False
  then show ?thesis by (simp add: sound_def)
next
  case h: True
  show ?thesis
  proof (cases fn)
    case None
    then show ?thesis by (simp add: applyFunction_def sound_panic)
  next
    case (Some r)
    show ?thesis
    proof (cases "deref s r")
      case (Function ps body fnEnv)
      have fe: "env_ok s fnEnv" using deref_ok(3) [OF h f [unfolded Some] Function] .
      have "sound val_ok s
              (andThen (extendFunctionEnv ps fnEnv args) (\<lambda>extendedEnv.
               andThen (ev (Stmt (BlockStatement body)) extendedEnv) (\<lambda>evaluated s'.
                 return (unwrapReturnValue s' evaluated) s')) s)"
      proof (rule sound_env)
        show "sound env_ok s (extendFunctionEnv ps fnEnv args s)"
          using fe a by (rule sound_extendFunctionEnv)
      next
        fix env s1
        assume e: "env_ok s1 env"
        show "sound val_ok s1 (andThen (ev (Stmt (BlockStatement body)) env) (\<lambda>evaluated s'.
                 return (unwrapReturnValue s' evaluated) s') s1)"
        proof (rule sound_val)
          show "sound val_ok s1 (ev (Stmt (BlockStatement body)) env s1)" using e by (rule sound_evaluatorD [OF E])
        next
          fix evaluated s2
          assume "heap_ok s2" and "val_ok s2 evaluated"
          then have "val_ok s2 (unwrapReturnValue s2 evaluated)" by (rule unwrapReturnValue_ok)
          then show "sound val_ok s2 (return (unwrapReturnValue s2 evaluated) s2)"
            by (rule sound_return)
        qed
      qed
      with Some Function show ?thesis by (simp add: applyFunction_def)
    next
      case (Builtin name)
      show ?thesis
      proof (cases "builtins D name")
        case None
        with Some Builtin show ?thesis by (simp add: applyFunction_def sound_panic)
      next
        case Fn: (Some Fn)
        show ?thesis
        proof (cases "Fn args (objs s)")
          case None
          with Some Builtin Fn show ?thesis by (simp add: applyFunction_def sound_panic)
        next
          case res: (Some p)
          obtain result os' where p: "p = (result, os')" by (cases p)
          have "sound val_ok s (return result (s\<lparr>objs := os'\<rparr>))"
            using D Fn res [unfolded p] a by (rule sound_builtin)
          with Some Builtin Fn res p show ?thesis by (simp add: applyFunction_def)
        qed
      qed
    qed (simp_all add: Some applyFunction_def sound_newError)
  qed
qed


lemma sound_operand:
  assumes E: "sound_evaluator ev"
    and en: "env_ok s env"
    and k: "\<And>x s1. \<lbrakk>heap_ok s1; grows s s1; val_ok s1 x\<rbrakk> \<Longrightarrow> sound val_ok s1 (f x s1)"
  shows "sound val_ok s
           (andThen (ev (Expr e) env) (\<lambda>x s1. if isError s1 x then return x s1 else f x s1) s)"
proof (rule sound_val)
  show "sound val_ok s (ev (Expr e) env s)" using en by (rule sound_evaluatorD [OF E])
next
  fix x s1
  assume "heap_ok s1" "grows s s1" "val_ok s1 x"
  then show "sound val_ok s1 (if isError s1 x then return x s1 else f x s1)"
    by (simp add: sound_return k)
qed

lemma sound_arguments:
  assumes E: "sound_evaluator ev"
    and en: "env_ok s env"
    and k: "\<And>xs s1. \<lbrakk>heap_ok s1; grows s s1; vals_ok s1 xs\<rbrakk> \<Longrightarrow> sound val_ok s1 (f xs s1)"
  shows "sound val_ok s
           (andThen (evalExpressions ev es env) (\<lambda>xs s1.
              if length xs = 1 \<and> isError s1 (xs ! 0) then return (xs ! 0) s1 else f xs s1) s)"
proof (rule sound_vals)
  show "sound vals_ok s (evalExpressions ev es env s)"
    unfolding evalExpressions_def
    by (rule sound_evalExpressionsLoop [OF E en]) (simp add: vals_ok_def)
next
  fix xs s1
  assume a: "heap_ok s1" "grows s s1" "vals_ok s1 xs"
  have "length xs = 1 \<Longrightarrow> val_ok s1 (xs ! 0)" using a(3) by (simp add: vals_ok_def)
  then show "sound val_ok s1
          (if length xs = 1 \<and> isError s1 (xs ! 0) then return (xs ! 0) s1 else f xs s1)"
    using a by (simp add: sound_return k del: One_nat_def)
qed

lemma sound_dispatch_Stmt:
  assumes E: "sound_evaluator ev" and en: "env_ok s env"
  shows "sound val_ok s (dispatch D ev (Stmt st) env s)"
proof (cases st)
  case (LetStatement name v)
  have "sound val_ok s (dispatch D ev (Stmt (LetStatement name v)) env s)"
    unfolding dispatch.simps
  proof (rule sound_operand [OF E en])
    fix x s1
    assume "val_ok s1 x"
    then have "sound any_ok s1 (Set env name x s1)" by (rule sound_Set)
    then show "sound val_ok s1 (andThen (Set env name x) (\<lambda>_. return None) s1)"
      by (rule sound_any) (rule sound_return_singleton)
  qed
  with LetStatement show ?thesis by simp
next
  case (ReturnStatement v)
  have "sound val_ok s (dispatch D ev (Stmt (ReturnStatement v)) env s)"
    unfolding dispatch.simps
  proof (rule sound_operand [OF E en])
    fix x s1
    assume "val_ok s1 x"
    then show "sound val_ok s1 (new (ReturnValue x) s1)"
      by (simp add: sound_new val_ok_def)
  qed
  with ReturnStatement show ?thesis by simp
next
  case (ExpressionStatement e)
  then show ?thesis by (simp add: sound_evaluatorD [OF E en])
next
  case (BlockStatement b)
  have "sound val_ok s (evalBlockLoop ev env b None s)"
    by (rule sound_evalBlockLoop [OF E en]) (simp add: val_ok_simps)
  with BlockStatement show ?thesis by (simp add: evalBlockStatement_def)
qed

lemma sound_dispatch_ArrayLiteral:
  assumes E: "sound_evaluator ev" and en: "env_ok s env"
  shows "sound val_ok s (dispatch D ev (Expr (ArrayLiteral es)) env s)"
  unfolding dispatch.simps
proof (rule sound_arguments [OF E en])
  fix xs s1
  assume "vals_ok s1 xs"
  then show "sound val_ok s1 (new (Array xs) s1)"
    by (simp add: sound_new vals_ok_def val_ok_def)
qed

lemma sound_dispatch_IndexExpression:
  assumes E: "sound_evaluator ev" and en: "env_ok s env"
  shows "sound val_ok s (dispatch D ev (Expr (IndexExpression l i)) env s)"
  unfolding dispatch.simps
proof (rule sound_operand [OF E en])
  fix left s1
  assume g: "grows s s1" and l: "val_ok s1 left"
  show "sound val_ok s1 (andThen (ev (Expr i) env) (\<lambda>index s'.
          if isError s' index then return index s'
          else evalIndexExpression D left index s') s1)"
  proof (rule sound_operand [OF E env_ok_grows [OF g en]])
    fix index s2
    assume "grows s1 s2"
    then have "val_ok s2 left" using l by (rule val_ok_grows)
    then show "sound val_ok s2 (evalIndexExpression D left index s2)"
      by (rule sound_evalIndexExpression)
  qed
qed

lemma sound_dispatch_PrefixExpression:
  assumes E: "sound_evaluator ev" and en: "env_ok s env"
  shows "sound val_ok s (dispatch D ev (Expr (PrefixExpression operator r)) env s)"
  unfolding dispatch.simps
  by (rule sound_operand [OF E en]) (rule sound_evalPrefixExpression)

lemma sound_dispatch_InfixExpression:
  assumes E: "sound_evaluator ev" and en: "env_ok s env"
  shows "sound val_ok s (dispatch D ev (Expr (InfixExpression l operator r)) env s)"
  unfolding dispatch.simps
proof (rule sound_operand [OF E en])
  fix left s1
  assume g: "grows s s1"
  show "sound val_ok s1 (andThen (ev (Expr r) env) (\<lambda>right s'.
          if isError s' right then return right s'
          else evalInfixExpression D operator left right s') s1)"
    by (rule sound_operand [OF E env_ok_grows [OF g en]])
       (rule sound_evalInfixExpression)
qed

lemma sound_dispatch_CallExpression:
  assumes E: "sound_evaluator ev" and D: "builtins_ok D" and en: "env_ok s env"
  shows "sound val_ok s (dispatch D ev (Expr (CallExpression f arguments)) env s)"
  unfolding dispatch.simps
proof (rule sound_operand [OF E en])
  fix callee s1
  assume g: "grows s s1" and f: "val_ok s1 callee"
  show "sound val_ok s1 (andThen (evalExpressions ev arguments env) (\<lambda>args s'.
          if length args = 1 \<and> isError s' (args ! 0) then return (args ! 0) s'
          else applyFunction D ev callee args s') s1)"
  proof (rule sound_arguments [OF E env_ok_grows [OF g en]])
    fix args s2
    assume g2: "grows s1 s2" and a: "vals_ok s2 args"
    have "val_ok s2 callee" using g2 f by (rule val_ok_grows)
    then show "sound val_ok s2 (applyFunction D ev callee args s2)"
      using a by (rule sound_applyFunction [OF E D])
  qed
qed

lemma sound_dispatch_Expr:
  assumes E: "sound_evaluator ev" and D: "builtins_ok D" and en: "env_ok s env"
  shows "sound val_ok s (dispatch D ev (Expr e) env s)"
proof (cases e)
  case (Identifier name)
  then show ?thesis by (simp add: sound_evalIdentifier [OF en])
next
  case (IntegerLiteral v)
  then show ?thesis by (simp add: sound_new_Integer)
next
  case (BooleanLiteral b)
  then show ?thesis by (simp add: sound_return_singleton)
next
  case (StringLiteral v)
  then show ?thesis by (simp add: sound_new_String)
next
  case (FunctionLiteral ps body)
  have "ok_obj (length (objs s)) (length (frames s)) (Function ps body env)"
    using en by (simp add: env_ok_def)
  then have "sound val_ok s (new (Function ps body env) s)" by (rule sound_new)
  with FunctionLiteral show ?thesis by simp
next
  case (ArrayLiteral es)
  then show ?thesis using sound_dispatch_ArrayLiteral [OF E en] by blast
next
  case (HashLiteral kvs)
  have "sound val_ok s (evalHashLiteralLoop D ev env kvs Map.empty s)"
    by (rule sound_evalHashLiteralLoop [OF E en]) (simp add: pairs_ok_def)
  with HashLiteral show ?thesis by (simp add: evalHashLiteral_def)
next
  case (IndexExpression l i)
  then show ?thesis using sound_dispatch_IndexExpression [OF E en] by blast
next
  case (PrefixExpression operator r)
  then show ?thesis using sound_dispatch_PrefixExpression [OF E en] by blast
next
  case (InfixExpression l operator r)
  then show ?thesis using sound_dispatch_InfixExpression [OF E en] by blast
next
  case (IfExpression c cons alt)
  then show ?thesis by (simp add: sound_evalIfExpression [OF E en])
next
  case (CallExpression f arguments)
  then show ?thesis using sound_dispatch_CallExpression [OF E D en] by blast
qed

lemma sound_dispatch:
  assumes E: "sound_evaluator ev" and D: "builtins_ok D" and en: "env_ok s env"
  shows "sound val_ok s (dispatch D ev node env s)"
proof (cases node)
  case (Program stmts)
  have "sound val_ok s (evalProgramLoop ev env stmts None s)"
    by (rule sound_evalProgramLoop [OF E en]) (simp add: val_ok_simps)
  with Program show ?thesis by (simp add: evalProgram_def)
next
  case (Stmt st)
  then show ?thesis using sound_dispatch_Stmt [OF E en] by blast
next
  case (Expr e)
  then show ?thesis using sound_dispatch_Expr [OF E D en] by blast
qed

lemma sound_Eval:
  "builtins_ok D \<Longrightarrow> env_ok s env \<Longrightarrow> sound val_ok s (Eval n D ctx node env s)"
proof (induction n arbitrary: node env s)
  case 0
  show ?case by (simp add: sound_def)
next
  case (Suc n)
  let ?t = "s\<lparr>clock := Suc (clock s)\<rparr>"
  have t: "heap_ok ?t = heap_ok s" "env_ok ?t env = env_ok s env"
    by (simp_all add: heap_ok_def env_ok_def)
  have E: "sound_evaluator (Eval n D ctx)"
    using Suc.IH [OF Suc.prems(1)] by (simp add: sound_evaluator_def)
  have d: "sound val_ok ?t (dispatch D (Eval n D ctx) node env ?t)"
    by (rule sound_dispatch [OF E Suc.prems(1)]) (simp add: t Suc.prems(2))
  have "sound val_ok s (dispatch D (Eval n D ctx) node env ?t)"
    using d t(1)
    by (auto simp: sound_def grows_def split: option.splits outcome.splits prod.splits)
  moreover have "sound val_ok s (fail e ?t)" for e
    using t(1) by (simp add: sound_def fail_def grows_def)
  ultimately show ?case
    by (simp add: Eval.simps(2) EvalBody_def andThen_def ctxErr_def split: option.split)
qed

lemma builtins_ok_D0: "builtins_ok D0"
  unfolding builtins_ok_def by (simp add: D0_def)

lemma heap_ok_s0: "heap_ok s0" "env_ok s0 env0"
  by (simp_all add: heap_ok_def env_ok_def s0_def env0_def)


lemma sound_EvalD:
  assumes "builtins_ok D" and "heap_ok s" and "env_ok s env"
    and "Eval n D ctx node env s = Some (Ok v, s')"
  shows "heap_ok s'" and "grows s s'" and "val_ok s' v"
  using sound_Eval [OF assms(1,3), of n ctx node] assms(2,4)
  by (simp_all add: sound_def)

lemma Eval_StringLiteral_result:
  assumes "Eval n D ctx (Expr (StringLiteral v)) env s = Some (Ok x, s')"
  shows "x = Some (Addr (length (objs s)))"
proof (cases n)
  case 0
  with assms show ?thesis by simp
next
  case (Suc m)
  show ?thesis
  proof (cases "ctx (clock s)")
    case None
    with assms Suc show ?thesis by (simp add: Eval_StringLiteral)
  next
    case (Some e)
    with assms Suc show ?thesis by (simp add: Eval_Suc_cancelled)
  qed
qed

lemma Eval_StringLiteral_state:
  assumes "Eval n D ctx (Expr (StringLiteral v)) env s = Some (Ok x, s')"
  shows "length (objs s') = Suc (length (objs s))"
proof (cases n)
  case 0
  with assms show ?thesis by simp
next
  case (Suc m)
  show ?thesis
  proof (cases "ctx (clock s)")
    case None
    with assms Suc show ?thesis by (auto simp: Eval_StringLiteral)
  next
    case (Some e)
    with assms Suc show ?thesis by (simp add: Eval_Suc_cancelled)
  qed
qed

lemma Eval_BooleanLiteral:
  "ctx (clock s) = None \<Longrightarrow>
   Eval (Suc n) D ctx (Expr (BooleanLiteral v)) env s =
     Some (Ok (Some (if v then TRUE else FALSE)), s\<lparr>clock := Suc (clock s)\<rparr>)"
  by (simp add: Eval_Suc_not_cancelled return_def nativeBoolToBooleanObject_def)

lemma Eval_Infix_Error_left:
  assumes "ctx (clock s) = None"
    and "Eval n D ctx (Expr le) env (s\<lparr>clock := Suc (clock s)\<rparr>) = Some (Ok left, s1)"
    and "isError s1 left"
  shows "Eval (Suc n) D ctx (Expr (InfixExpression le operator re)) env s = Some (Ok left, s1)"
  using assms by (simp add: Eval_Suc_not_cancelled andThen_def return_def)

lemma Eval_Infix_Error_right:
  assumes "ctx (clock s) = None"
    and "Eval n D ctx (Expr le) env (s\<lparr>clock := Suc (clock s)\<rparr>) = Some (Ok left, s1)"
    and "\<not> isError s1 left"
    and "Eval n D ctx (Expr re) env s1 = Some (Ok right, s2)"
    and "isError s2 right"
  shows "Eval (Suc n) D ctx (Expr (InfixExpression le operator re)) env s = Some (Ok right, s2)"
  using assms by (simp add: Eval_Suc_not_cancelled andThen_def return_def)

lemma operands_ok:
  assumes "builtins_ok D" and "heap_ok s" and "env_ok s env"
    and "Eval n D ctx (Expr le) env (s\<lparr>clock := Suc (clock s)\<rparr>) = Some (Ok (Some l), s1)"
    and "Eval n D ctx (Expr re) env s1 = Some (Ok (Some r), s2)"
  shows "heap_ok s2" and "val_ok s2 (Some l)" and "val_ok s2 (Some r)" and "val_ok s1 (Some l)"
proof -
  let ?t = "s\<lparr>clock := Suc (clock s)\<rparr>"
  have t: "heap_ok ?t" "env_ok ?t env"
    using assms(2,3) by (simp_all add: heap_ok_def env_ok_def)
  note a = sound_EvalD [OF assms(1) t assms(4)]
  have e1: "env_ok s1 env" using a(2) t(2) by (rule env_ok_grows)
  note b = sound_EvalD [OF assms(1) a(1) e1 assms(5)]
  show "heap_ok s2" by (rule b(1))
  show "val_ok s2 (Some l)" using b(2) a(3) by (rule val_ok_grows)
  show "val_ok s2 (Some r)" by (rule b(3))
  show "val_ok s1 (Some l)" by (rule a(3))
qed

lemma fresh_ref:
  "val_ok s (Some l) \<Longrightarrow> l \<noteq> Addr (length (objs s))"
  by (auto simp: val_ok_def ok_val_def)

section \<open>Equality of objects\<close>

text \<open>
  C10 as the code has it.  For every infix expression (entered while the run is not
  cancelled) whose left operand yields a result: a left result that is an \<open>Error\<close> object
  is the result of the expression, and so is a right result that is an \<open>Error\<close> object
  when the left one is none.  When both operands yield objects that are not \<open>Error\<close>
  objects and that are not both \<open>Integer\<close> objects, \<open>==\<close> and \<open>!=\<close> yield \<open>TRUE\<close> or \<open>FALSE\<close> by
  the identity of the two references; the state is as the operands left it, so no \<open>Error\<close>
  object arises.  Operands of different kinds are different objects: \<open>==\<close> yields \<open>FALSE\<close>
  and \<open>!=\<close> yields \<open>TRUE\<close>.  Two string literals evaluate to two separate \<open>String\<close> objects,
  which are not \<open>==\<close> even when their contents are equal.  In a run from a well-formed heap
  with well-formed built-ins, a string literal as the right operand is a new object and so
  not \<open>==\<close> to any left operand; two \<open>Boolean\<close> operands are \<open>==\<close> exactly when their values
  are equal, and two \<open>Null\<close> operands always are, because each of them is one of the
  singletons \<open>TRUE\<close>, \<open>FALSE\<close> and \<open>NULL\<close>.  The last conjunct has the comparison of two
  string literals and of two boolean literals with the state written out: both return.
\<close>

theorem equality_by_identity:
  assumes "ctx (clock s) = None"
  shows
    "(Eval n D ctx (Expr le) env (s\<lparr>clock := Suc (clock s)\<rparr>) = Some (Ok left, s1) \<and>
      isError s1 left \<longrightarrow>
        Eval (Suc n) D ctx (Expr (InfixExpression le operator re)) env s = Some (Ok left, s1)) \<and>
     (Eval n D ctx (Expr le) env (s\<lparr>clock := Suc (clock s)\<rparr>) = Some (Ok left, s1) \<and>
      \<not> isError s1 left \<and>
      Eval n D ctx (Expr re) env s1 = Some (Ok right, s2) \<and> isError s2 right \<longrightarrow>
        Eval (Suc n) D ctx (Expr (InfixExpression le operator re)) env s = Some (Ok right, s2)) \<and>
     (Eval n D ctx (Expr le) env (s\<lparr>clock := Suc (clock s)\<rparr>) = Some (Ok (Some l), s1) \<and>
      \<not> isError s1 (Some l) \<and>
      Eval n D ctx (Expr re) env s1 = Some (Ok (Some r), s2) \<and> \<not> isError s2 (Some r) \<and>
      \<not> (Type (deref s2 l) = INTEGER_OBJ \<and> Type (deref s2 r) = INTEGER_OBJ) \<longrightarrow>
        Eval (Suc n) D ctx (Expr (InfixExpression le ''=='' re)) env s =
          Some (Ok (Some (if l = r then TRUE else FALSE)), s2) \<and>
        Eval (Suc n) D ctx (Expr (InfixExpression le ''!='' re)) env s =
          Some (Ok (Some (if l \<noteq> r then TRUE else FALSE)), s2) \<and>
        (Type (deref s2 l) \<noteq> Type (deref s2 r) \<longrightarrow>
           Eval (Suc n) D ctx (Expr (InfixExpression le ''=='' re)) env s =
             Some (Ok (Some FALSE), s2) \<and>
           Eval (Suc n) D ctx (Expr (InfixExpression le ''!='' re)) env s =
             Some (Ok (Some TRUE), s2)) \<and>
        (le = StringLiteral x \<and> re = StringLiteral y \<longrightarrow>
           Eval (Suc n) D ctx (Expr (InfixExpression le ''=='' re)) env s =
             Some (Ok (Some FALSE), s2)) \<and>
        (heap_ok s \<and> env_ok s env \<and> builtins_ok D \<longrightarrow>
           (re = StringLiteral y \<longrightarrow>
              Eval (Suc n) D ctx (Expr (InfixExpression le ''=='' re)) env s =
                Some (Ok (Some FALSE), s2)) \<and>
           (deref s2 l = Boolean p \<and> deref s2 r = Boolean q \<longrightarrow>
              Eval (Suc n) D ctx (Expr (InfixExpression le ''=='' re)) env s =
                Some (Ok (Some (if p = q then TRUE else FALSE)), s2) \<and>
              Eval (Suc n) D ctx (Expr (InfixExpression le ''!='' re)) env s =
                Some (Ok (Some (if p \<noteq> q then TRUE else FALSE)), s2)) \<and>
           (deref s2 l = Null \<and> deref s2 r = Null \<longrightarrow>
              Eval (Suc n) D ctx (Expr (InfixExpression le ''=='' re)) env s =
                Some (Ok (Some TRUE), s2) \<and>
              Eval (Suc n) D ctx (Expr (InfixExpression le ''!='' re)) env s =
                Some (Ok (Some FALSE), s2)))) \<and>
     (ctx (Suc (clock s)) = None \<and> ctx (Suc (Suc (clock s))) = None \<longrightarrow>
        Eval (Suc (Suc m)) D ctx (Expr (InfixExpression (StringLiteral x) ''=='' (StringLiteral y))) env s =
          Some (Ok (Some FALSE),
                s\<lparr>clock := Suc (Suc (Suc (clock s))), objs := objs s @ [String x, String y]\<rparr>) \<and>
        Eval (Suc (Suc m)) D ctx (Expr (InfixExpression (BooleanLiteral p) ''=='' (BooleanLiteral q))) env s =
          Some (Ok (Some (if p = q then TRUE else FALSE)), s\<lparr>clock := Suc (Suc (Suc (clock s)))\<rparr>))"
proof (intro conjI impI)
  assume "Eval n D ctx (Expr le) env (s\<lparr>clock := Suc (clock s)\<rparr>) = Some (Ok left, s1) \<and>
          isError s1 left"
  then show "Eval (Suc n) D ctx (Expr (InfixExpression le operator re)) env s = Some (Ok left, s1)"
    using assms by (simp add: Eval_Infix_Error_left)
next
  assume "Eval n D ctx (Expr le) env (s\<lparr>clock := Suc (clock s)\<rparr>) = Some (Ok left, s1) \<and>
      \<not> isError s1 left \<and>
      Eval n D ctx (Expr re) env s1 = Some (Ok right, s2) \<and> isError s2 right"
  then show "Eval (Suc n) D ctx (Expr (InfixExpression le operator re)) env s = Some (Ok right, s2)"
    using assms by (simp add: Eval_Infix_Error_right)
next
  assume h: "Eval n D ctx (Expr le) env (s\<lparr>clock := Suc (clock s)\<rparr>) = Some (Ok (Some l), s1) \<and>
      \<not> isError s1 (Some l) \<and>
      Eval n D ctx (Expr re) env s1 = Some (Ok (Some r), s2) \<and> \<not> isError s2 (Some r) \<and>
      \<not> (Type (deref s2 l) = INTEGER_OBJ \<and> Type (deref s2 r) = INTEGER_OBJ)"
  then have L: "Eval n D ctx (Expr le) env (s\<lparr>clock := Suc (clock s)\<rparr>) = Some (Ok (Some l), s1)"
    and R: "Eval n D ctx (Expr re) env s1 = Some (Ok (Some r), s2)"
    and a: "\<not> (Type (deref s2 l) = INTEGER_OBJ \<and> Type (deref s2 r) = INTEGER_OBJ)"
    by blast+
  have E: "Eval (Suc n) D ctx (Expr (InfixExpression le operator re)) env s =
             evalInfixExpression D operator (Some l) (Some r) s2" for operator
    using assms h by (intro Eval_InfixExpression [where ?s1.0 = s1]) blast+
  have eq: "Eval (Suc n) D ctx (Expr (InfixExpression le ''=='' re)) env s =
          Some (Ok (Some (if l = r then TRUE else FALSE)), s2)"
    by (simp add: E evalInfix_identity [OF a] nativeBoolToBooleanObject_def)
  have ne: "Eval (Suc n) D ctx (Expr (InfixExpression le ''!='' re)) env s =
          Some (Ok (Some (if l \<noteq> r then TRUE else FALSE)), s2)"
    by (simp add: E evalInfix_identity [OF a] nativeBoolToBooleanObject_def)
  show "Eval (Suc n) D ctx (Expr (InfixExpression le ''=='' re)) env s =
          Some (Ok (Some (if l = r then TRUE else FALSE)), s2)"
    by (rule eq)
  show "Eval (Suc n) D ctx (Expr (InfixExpression le ''!='' re)) env s =
          Some (Ok (Some (if l \<noteq> r then TRUE else FALSE)), s2)"
    by (rule ne)
  { assume "Type (deref s2 l) \<noteq> Type (deref s2 r)"
    then have d: "l \<noteq> r" by auto
    show "Eval (Suc n) D ctx (Expr (InfixExpression le ''=='' re)) env s =
            Some (Ok (Some FALSE), s2)"
      using d by (simp add: eq)
    show "Eval (Suc n) D ctx (Expr (InfixExpression le ''!='' re)) env s =
            Some (Ok (Some TRUE), s2)"
      using d by (simp add: ne) }
  { assume "le = StringLiteral x \<and> re = StringLiteral y"
    then have l: "Some l = Some (Addr (length (objs (s\<lparr>clock := Suc (clock s)\<rparr>))))"
      and n1: "length (objs s1) = Suc (length (objs (s\<lparr>clock := Suc (clock s)\<rparr>)))"
      and r: "Some r = Some (Addr (length (objs s1)))"
      using L R
      by (auto dest: Eval_StringLiteral_result Eval_StringLiteral_state)
    then have "l \<noteq> r" by simp
    then show "Eval (Suc n) D ctx (Expr (InfixExpression le ''=='' re)) env s =
            Some (Ok (Some FALSE), s2)"
      by (simp add: eq) }
  { assume w: "heap_ok s \<and> env_ok s env \<and> builtins_ok D"
    then have D: "builtins_ok D" and hs: "heap_ok s" and en: "env_ok s env" by blast+
    note ok = operands_ok [OF D hs en L R]
    { assume "re = StringLiteral y"
      then have "r = Addr (length (objs s1))"
        using R by (auto dest: Eval_StringLiteral_result)
      then have "l \<noteq> r" using fresh_ref [OF ok(4)] by simp
      then show "Eval (Suc n) D ctx (Expr (InfixExpression le ''=='' re)) env s =
            Some (Ok (Some FALSE), s2)"
        by (simp add: eq) }
    { assume b: "deref s2 l = Boolean p \<and> deref s2 r = Boolean q"
      have "l = nativeBoolToBooleanObject p" "r = nativeBoolToBooleanObject q"
        using b deref_ok(5) [OF ok(1,2)] deref_ok(5) [OF ok(1,3)] by blast+
      then have i: "(l = r) = (p = q)" by (auto simp: nativeBoolToBooleanObject_def)
      show "Eval (Suc n) D ctx (Expr (InfixExpression le ''=='' re)) env s =
              Some (Ok (Some (if p = q then TRUE else FALSE)), s2)"
        by (simp add: eq i)
      show "Eval (Suc n) D ctx (Expr (InfixExpression le ''!='' re)) env s =
              Some (Ok (Some (if p \<noteq> q then TRUE else FALSE)), s2)"
        by (simp add: ne i) }
    { assume b: "deref s2 l = Null \<and> deref s2 r = Null"
      have i: "l = NULL" "r = NULL"
        using b deref_ok(6) [OF ok(1,2)] deref_ok(6) [OF ok(1,3)] by blast+
      show "Eval (Suc n) D ctx (Expr (InfixExpression le ''=='' re)) env s =
              Some (Ok (Some TRUE), s2)"
        by (simp add: eq i)
      show "Eval (Suc n) D ctx (Expr (InfixExpression le ''!='' re)) env s =
              Some (Ok (Some FALSE), s2)"
        by (simp add: ne i) } }
next
  assume "ctx (Suc (clock s)) = None \<and> ctx (Suc (Suc (clock s))) = None"
  with assms
  have c: "ctx (clock s) = None \<and> ctx (Suc (clock s)) = None \<and> ctx (Suc (Suc (clock s))) = None"
    by simp
  let ?s2 = "s\<lparr>clock := Suc (Suc (Suc (clock s))), objs := objs s @ [String x, String y]\<rparr>"
  have a: "\<not> (Type (deref ?s2 (Addr (length (objs s)))) = INTEGER_OBJ \<and>
              Type (deref ?s2 (Addr (Suc (length (objs s))))) = INTEGER_OBJ)"
    by (simp add: nth_append)
  have "Eval (Suc (Suc m)) D ctx (Expr (InfixExpression (StringLiteral x) ''=='' (StringLiteral y))) env s =
          evalInfixExpression D ''=='' (Some (Addr (length (objs s))))
            (Some (Addr (Suc (length (objs s))))) ?s2"
    using c
    by (intro Eval_InfixExpression
          [where ?s1.0 = "s\<lparr>clock := Suc (Suc (clock s)), objs := objs s @ [String x]\<rparr>"])
       (simp_all add: Eval_StringLiteral isError_def nth_append)
  then show "Eval (Suc (Suc m)) D ctx
      (Expr (InfixExpression (StringLiteral x) ''=='' (StringLiteral y))) env s =
        Some (Ok (Some FALSE), ?s2)"
    by (simp add: evalInfix_identity [OF a] nativeBoolToBooleanObject_def)
  let ?t2 = "s\<lparr>clock := Suc (Suc (Suc (clock s)))\<rparr>"
  have b: "\<not> (Type (deref ?t2 (if p then TRUE else FALSE)) = INTEGER_OBJ \<and>
              Type (deref ?t2 (if q then TRUE else FALSE)) = INTEGER_OBJ)"
    by simp
  have "Eval (Suc (Suc m)) D ctx (Expr (InfixExpression (BooleanLiteral p) ''=='' (BooleanLiteral q))) env s =
          evalInfixExpression D ''=='' (Some (if p then TRUE else FALSE))
            (Some (if q then TRUE else FALSE)) ?t2"
    using c
    by (intro Eval_InfixExpression [where ?s1.0 = "s\<lparr>clock := Suc (Suc (clock s))\<rparr>"])
       (simp_all add: Eval_BooleanLiteral isError_def)
  then show "Eval (Suc (Suc m)) D ctx
      (Expr (InfixExpression (BooleanLiteral p) ''=='' (BooleanLiteral q))) env s =
        Some (Ok (Some (if p = q then TRUE else FALSE)), ?t2)"
    by (auto simp: evalInfix_identity [OF b] nativeBoolToBooleanObject_def)
qed

theorem equality_by_identity_witness:
  "Eval 2 D0 never (Expr (InfixExpression (StringLiteral ''a'') ''=='' (StringLiteral ''a''))) env0 s0 =
     Some (Ok (Some FALSE), \<lparr>objs = [String ''a'', String ''a''], frames = [Map.empty], clock = 3\<rparr>) \<and>
   Eval 2 D0 never (Expr (InfixExpression (BooleanLiteral True) ''=='' (BooleanLiteral True))) env0 s0 =
     Some (Ok (Some TRUE), \<lparr>objs = [], frames = [Map.empty], clock = 3\<rparr>) \<and>
   Eval 2 D0 never (Expr (InfixExpression (Identifier ''x'') ''!='' (StringLiteral ''a''))) env0 s0 =
     Some (Ok (Some (Addr 0)),
           \<lparr>objs = [Error ''identifier not found: x''], frames = [Map.empty], clock = 2\<rparr>)"
proof -
  have c: "never (clock s0) = None" by (simp add: never_def)
  have a1: "Eval 1 D0 never (Expr (StringLiteral ''a'')) env0 (s0\<lparr>clock := Suc (clock s0)\<rparr>) =
              Some (Ok (Some (Addr 0)), \<lparr>objs = [String ''a''], frames = [Map.empty], clock = 2\<rparr>)"
    by (simp add: run_defs)
  have a2: "Eval 1 D0 never (Expr (StringLiteral ''a'')) env0
              \<lparr>objs = [String ''a''], frames = [Map.empty], clock = 2\<rparr> =
              Some (Ok (Some (Addr 1)),
                    \<lparr>objs = [String ''a'', String ''a''], frames = [Map.empty], clock = 3\<rparr>)"
    by (simp add: run_defs)
  from equality_by_identity [where ctx = never and s = s0 and n = 1 and D = D0 and env = env0
      and le = "StringLiteral ''a''" and re = "StringLiteral ''a''"
      and l = "Addr 0" and r = "Addr 1"
      and ?s1.0 = "\<lparr>objs = [String ''a''], frames = [Map.empty], clock = 2\<rparr>"
      and ?s2.0 = "\<lparr>objs = [String ''a'', String ''a''], frames = [Map.empty], clock = 3\<rparr>",
      OF c] a1 a2
  have a: "Eval 2 D0 never (Expr (InfixExpression (StringLiteral ''a'') ''=='' (StringLiteral ''a''))) env0 s0 =
     Some (Ok (Some FALSE), \<lparr>objs = [String ''a'', String ''a''], frames = [Map.empty], clock = 3\<rparr>)"
    by (simp add: isError_def eval_nat_numeral)
  have b1: "Eval 1 D0 never (Expr (BooleanLiteral True)) env0 (s0\<lparr>clock := Suc (clock s0)\<rparr>) =
              Some (Ok (Some TRUE), \<lparr>objs = [], frames = [Map.empty], clock = 2\<rparr>)"
    by (simp add: run_defs)
  have b2: "Eval 1 D0 never (Expr (BooleanLiteral True)) env0
              \<lparr>objs = [], frames = [Map.empty], clock = 2\<rparr> =
              Some (Ok (Some TRUE), \<lparr>objs = [], frames = [Map.empty], clock = 3\<rparr>)"
    by (simp add: run_defs)
  from equality_by_identity [where ctx = never and s = s0 and n = 1 and D = D0 and env = env0
      and le = "BooleanLiteral True" and re = "BooleanLiteral True"
      and l = TRUE and r = TRUE and p = True and q = True
      and ?s1.0 = "\<lparr>objs = [], frames = [Map.empty], clock = 2\<rparr>"
      and ?s2.0 = "\<lparr>objs = [], frames = [Map.empty], clock = 3\<rparr>",
      OF c] b1 b2 heap_ok_s0 builtins_ok_D0
  have b: "Eval 2 D0 never (Expr (InfixExpression (BooleanLiteral True) ''=='' (BooleanLiteral True))) env0 s0 =
     Some (Ok (Some TRUE), \<lparr>objs = [], frames = [Map.empty], clock = 3\<rparr>)"
    by (simp add: isError_def eval_nat_numeral)
  have d1: "Eval 1 D0 never (Expr (Identifier ''x'')) env0 (s0\<lparr>clock := Suc (clock s0)\<rparr>) =
              Some (Ok (Some (Addr 0)),
                    \<lparr>objs = [Error ''identifier not found: x''], frames = [Map.empty], clock = 2\<rparr>)"
    by (simp add: run_defs)
  from equality_by_identity [where ctx = never and s = s0 and n = 1 and D = D0 and env = env0
      and le = "Identifier ''x''" and re = "StringLiteral ''a''" and operator = "''!=''"
      and left = "Some (Addr 0)"
      and ?s1.0 = "\<lparr>objs = [Error ''identifier not found: x''], frames = [Map.empty], clock = 2\<rparr>",
      OF c] d1
  have d: "Eval 2 D0 never (Expr (InfixExpression (Identifier ''x'') ''!='' (StringLiteral ''a''))) env0 s0 =
     Some (Ok (Some (Addr 0)),
           \<lparr>objs = [Error ''identifier not found: x''], frames = [Map.empty], clock = 2\<rparr>)"
    by (simp add: isError_def eval_nat_numeral)
  from a b d show ?thesis by simp
qed

text \<open>
  An operand that yields an \<open>Error\<close> object, and one that yields no object: in \<open>"a" == x\<close>
  with \<open>x\<close> unbound the left operand is a \<open>String\<close> and the result is the \<open>Error\<close> object of
  the right operand; in \<open>fn() { }() == "a"\<close> the call yields \<open>nil\<close> and \<open>left.Type()\<close> panics.
\<close>

theorem equality_by_identity_counterexample:
  "Eval 2 D0 never (Expr (InfixExpression (StringLiteral ''a'') ''=='' (Identifier ''x''))) env0 s0 =
     Some (Ok (Some (Addr 1)),
       \<lparr>objs = [String ''a'', Error ''identifier not found: x''], frames = [Map.empty], clock = 3\<rparr>) \<and>
   Eval 3 D0 never
       (Expr (InfixExpression (CallExpression (FunctionLiteral [] []) []) ''=='' (StringLiteral ''a'')))
       env0 s0 =
     Some (Panic,
       \<lparr>objs = [Function [] [] env0, String ''a''], frames = [Map.empty, Map.empty], clock = 5\<rparr>)"
  by (simp add: run_defs)

end
